theory Spec2Isabelle
  imports Main "HOL-Library.Word"
begin

section \<open>The serial transport of goregen (package regenbox, serial.go)\<close>

subsection \<open>Values\<close>

type_synonym byte = "8 word"

text \<open>A \<^verbatim>\<open>time.Duration\<close> is a number of nanoseconds.\<close>

type_synonym duration = int

definition Millisecond :: duration where
  "Millisecond = 1000000"

definition Second :: duration where
  "Second = 1000000000"

definition DefaultTimeout :: duration where
  "DefaultTimeout = Second"

text \<open>
  Go's \<^verbatim>\<open>error\<close> values. The two package-level errors, the two errors built by
  \<^verbatim>\<open>fmt.Errorf\<close> in \<^verbatim>\<open>Read\<close> and \<^verbatim>\<open>Write\<close>, and the errors of the serial
  library and the operating system, which the package only passes on. A \<^verbatim>\<open>nil\<close> error
  is \<open>None\<close> of \<open>error option\<close>.
\<close>

datatype error =
    ErrNoSerialPortFound
  | ErrClosedPort
  | ReadTimeoutError duration
  | WriteTimeoutError duration
  | PortError string

text \<open>
  The text of an error. \<^verbatim>\<open>%s\<close> of a \<^verbatim>\<open>time.Duration\<close> prints it with the standard
  library's \<^verbatim>\<open>Duration.String\<close>, which is the parameter \<open>dstr\<close> here.
\<close>

fun error_message :: "(duration \<Rightarrow> string) \<Rightarrow> error \<Rightarrow> string" where
  "error_message dstr ErrNoSerialPortFound = ''didn't find any available serial port''"
| "error_message dstr ErrClosedPort = ''serial port is closed''"
| "error_message dstr (ReadTimeoutError d) = ''read timeout ('' @ dstr d @ '')''"
| "error_message dstr (WriteTimeoutError d) = ''write timeout ('' @ dstr d @ '')''"
| "error_message dstr (PortError m) = m"

datatype parity = NoParity | OddParity | EvenParity | MarkParity | SpaceParity

datatype stop_bits = OneStopBit | OnePointFiveStopBits | TwoStopBits

record mode =
  BaudRate :: int
  Parity :: parity
  DataBits :: int
  StopBits :: stop_bits

definition DefaultSerialConfig :: mode where
  "DefaultSerialConfig =
     \<lparr>BaudRate = 57600, Parity = NoParity, DataBits = 8, StopBits = OneStopBit\<rparr>"

subsection \<open>The physical port\<close>

text \<open>
  \<^verbatim>\<open>serial.Port\<close> is an interface of the serial library. The simulated port is a script
  of what the device will deliver: \<open>rd_script\<close> lists the pending arrivals, each a chunk
  of bytes and the error reported once the chunk is taken; \<open>wr_script\<close> lists the
  results of the physical writes to come; \<open>written\<close> records the physical writes made,
  \<open>closes\<close> counts the physical closes. A physical read or write whose script is
  exhausted blocks for ever: it has no result.
\<close>

record port =
  rd_script :: "(byte list \<times> error option) list"
  wr_script :: "error option list"
  written :: "byte list list"
  close_result :: "error option"
  closes :: nat

text \<open>
  \<^verbatim>\<open>Port.Read(p)\<close> with \<open>n = len(p)\<close>: at most \<open>n\<close> bytes of the first pending chunk;
  what does not fit stays pending.
\<close>

definition port_read :: "nat \<Rightarrow> port \<Rightarrow> (byte list \<times> error option \<times> port) option" where
  "port_read n p =
     (case rd_script p of
        [] \<Rightarrow> None
      | (d, e) # rest \<Rightarrow>
          if length d \<le> n then Some (d, e, p\<lparr>rd_script := rest\<rparr>)
          else Some (take n d, None, p\<lparr>rd_script := (drop n d, e) # rest\<rparr>))"

text \<open>\<^verbatim>\<open>Port.Write(b)\<close>; the caller drops the byte count.\<close>

definition port_write :: "byte list \<Rightarrow> port \<Rightarrow> (error option \<times> port) option" where
  "port_write b p =
     (case wr_script p of
        [] \<Rightarrow> None
      | e # rest \<Rightarrow> Some (e, p\<lparr>wr_script := rest, written := written p @ [b]\<rparr>))"

text \<open>\<^verbatim>\<open>Port.Close()\<close>.\<close>

definition port_close :: "port \<Rightarrow> error option \<times> port" where
  "port_close p = (close_result p, p\<lparr>closes := Suc (closes p)\<rparr>)"

lemma port_read_length:
  "port_read n p = Some (d, e, p') \<Longrightarrow> length d \<le> n"
  by (auto simp: port_read_def split: list.splits if_splits)

subsection \<open>Framing: the top of \<^verbatim>\<open>readRoutine\<close>'s loop\<close>

text \<open>
  \<^verbatim>\<open>for err == nil && j > 0 && b[i-1] != StopByte { j, err = sc.Port.Read(b[i:]); i += j }\<close>
  The list \<open>b\<close> is the filled part \<^verbatim>\<open>b[:i]\<close> of the 32-byte buffer, so \<open>i = length b\<close>
  and \<^verbatim>\<open>b[i:]\<close> has \<open>32 - length b\<close> bytes. \<^verbatim>\<open>StopByte\<close> is a constant of another file
  of the package: the parameter \<open>stop\<close>.
\<close>

function read_loop ::
  "byte \<Rightarrow> byte list \<Rightarrow> nat \<Rightarrow> error option \<Rightarrow> port \<Rightarrow> (byte list \<times> error option \<times> port) option"
where
  "read_loop stop b j err p =
     (if err = None \<and> j > 0 \<and> b ! (length b - 1) \<noteq> stop
      then (case port_read (32 - length b) p of
              None \<Rightarrow> None
            | Some (d, err', p') \<Rightarrow> read_loop stop (b @ d) (length d) err' p')
      else Some (b, err, p))"
  by pat_completeness auto
termination
proof (relation "measure (\<lambda>(stop, b, j, err, p).
         (if err = None \<and> j > 0 then Suc (32 - length b) else 0))", goal_cases)
  case 1
  show ?case by simp
next
  case (2 stop b j err p x2 d y err' p')
  then have "length d \<le> 32 - length b"
    using port_read_length by metis
  with 2 show ?case by (cases d) auto
qed

declare read_loop.simps [simp del]

text \<open>\<^verbatim>\<open>if i > 0 && b[i-1] == StopByte { i -= 1 }\<close>, then \<^verbatim>\<open>b[:i]\<close>.\<close>

definition strip_stop :: "byte \<Rightarrow> byte list \<Rightarrow> byte list" where
  "strip_stop stop b =
     (if length b > 0 \<and> b ! (length b - 1) = stop then take (length b - 1) b else b)"

text \<open>
  One pass of the loop body up to the two deliveries: the frame, the error and the port
  afterwards; \<open>None\<close> when a physical read never returns.
\<close>

definition read_frame :: "byte \<Rightarrow> port \<Rightarrow> (byte list \<times> error option \<times> port) option" where
  "read_frame stop p =
     (case port_read 32 p of
        None \<Rightarrow> None
      | Some (d, err, p') \<Rightarrow>
          (case read_loop stop d (length d) err p' of
             None \<Rightarrow> None
           | Some (b, err', p'') \<Rightarrow> Some (strip_stop stop b, err', p'')))"

subsection \<open>The connection and its goroutines\<close>

text \<open>
  The fields of \<^verbatim>\<open>SerialConnection\<close> that hold data. \<open>Port\<close> is the handle of the
  serial library, of any type. The channel fields and the wait group refer to objects of
  the runtime; their state is part of \<open>transport\<close> below.
\<close>

record 'p SerialConnection =
  ReadTimeout :: duration
  WriteTimeout :: duration
  Port :: 'p
  path :: string
  locked :: bool
  config :: mode

definition NewSerial :: "'p \<Rightarrow> mode \<Rightarrow> string \<Rightarrow> bool \<Rightarrow> 'p SerialConnection" where
  "NewSerial port' config' name lockPort =
     \<lparr>ReadTimeout = DefaultTimeout, WriteTimeout = DefaultTimeout, Port = port',
      path = name, locked = lockPort, config = config'\<rparr>"

definition Path :: "'p SerialConnection \<Rightarrow> string" where
  "Path sc = path sc"

text \<open>
  Program points. Each goroutine and each call in progress is at one of them.
  \<^item> \<^verbatim>\<open>readRoutine\<close>: \<open>RW_Read\<close> is the top of the loop (the physical reads),
    \<open>RW_SendFrame f err\<close> the first \<^verbatim>\<open>select\<close> with the frame \<open>f\<close> to deliver,
    \<open>RW_SendErr err\<close> the second one.
  \<^item> \<^verbatim>\<open>writeRoutine\<close>: \<open>WW_Recv\<close> is the first \<^verbatim>\<open>select\<close>, \<open>WW_Write b\<close> the physical
    write, \<open>WW_SendErr err\<close> the second \<^verbatim>\<open>select\<close>.
  \<^item> \<^verbatim>\<open>Read\<close>: \<open>RC_Select\<close> is the outer \<^verbatim>\<open>select\<close>, \<open>RC_WaitErr b\<close> the inner one.
  \<^item> \<^verbatim>\<open>Write\<close>: \<open>WC_Select b\<close> is the outer \<^verbatim>\<open>select\<close>, \<open>WC_WaitErr\<close> the inner one.
  \<^item> \<^verbatim>\<open>Close\<close>: \<open>CC_Check\<close> is the \<^verbatim>\<open>select\<close> with a \<^verbatim>\<open>default\<close>, \<open>CC_Fire\<close> is
    \<^verbatim>\<open>close(sc.closeChan)\<close>, \<open>CC_PortClose\<close> is \<^verbatim>\<open>sc.Port.Close()\<close>, \<open>CC_Wait err\<close> is
    \<^verbatim>\<open>sc.wg.Wait()\<close>.
\<close>

datatype rw_pc =
  RW_NotStarted | RW_Read | RW_SendFrame "byte list" "error option"
  | RW_SendErr "error option" | RW_Exited

datatype ww_pc =
  WW_NotStarted | WW_Recv | WW_Write "byte list" | WW_SendErr "error option" | WW_Exited

datatype rc_pc = RC_Idle | RC_Select | RC_WaitErr "byte list"

datatype wc_pc = WC_Idle | WC_Select "byte list" | WC_WaitErr

datatype cc_pc = CC_Idle | CC_Check | CC_Fire | CC_PortClose | CC_Wait "error option"

text \<open>
  The state of one connection at run time: the struct, the physical port behind its
  handle, whether \<^verbatim>\<open>closeChan\<close> is closed, the counter of the wait group, the program
  points, and what the calls made so far have returned, oldest first. The channels
  \<^verbatim>\<open>rdChan\<close>, \<^verbatim>\<open>wrChan\<close> and \<^verbatim>\<open>errChan\<close> are unbuffered: they hold nothing between two
  steps. There is one caller of each of \<^verbatim>\<open>Read\<close>, \<^verbatim>\<open>Write\<close> and \<^verbatim>\<open>Close\<close>, which makes
  its calls one after the other.
\<close>

record 'p transport =
  conn :: "'p SerialConnection"
  dev :: port
  closeChan :: bool
  wg :: nat
  rw :: rw_pc
  ww :: ww_pc
  rc :: rc_pc
  wc :: wc_pc
  cc :: cc_pc
  read_log :: "(byte list \<times> error option) list"
  write_log :: "error option list"
  close_log :: "error option list"

definition new_transport :: "'p SerialConnection \<Rightarrow> port \<Rightarrow> 'p transport" where
  "new_transport sc p =
     \<lparr>conn = sc, dev = p, closeChan = False, wg = 0,
      rw = RW_NotStarted, ww = WW_NotStarted, rc = RC_Idle, wc = WC_Idle, cc = CC_Idle,
      read_log = [], write_log = [], close_log = []\<rparr>"

text \<open>\<^verbatim>\<open>Closed()\<close> hands out \<^verbatim>\<open>closeChan\<close>; a receive from it is ready once it is closed.\<close>

definition Closed :: "'p transport \<Rightarrow> bool" where
  "Closed s = closeChan s"

text \<open>
  The case a \<^verbatim>\<open>select\<close> takes: a transfer over one of the three channels, with the value
  that passes, the receive from \<^verbatim>\<open>sc.Closed()\<close>, or the receive from \<^verbatim>\<open>time.After\<close>.
\<close>

datatype select_case =
    Case_rdChan "byte list"
  | Case_wrChan "byte list"
  | Case_errChan "error option"
  | Case_Closed
  | Case_After

text \<open>
  \<^verbatim>\<open>Read\<close>: from a program point and the case taken, the next program point and what
  is returned, if the call returns. A \<^verbatim>\<open>nil\<close> slice is \<open>[]\<close>.
\<close>

fun Read ::
  "'p SerialConnection \<Rightarrow> rc_pc \<Rightarrow> select_case \<Rightarrow> (rc_pc \<times> (byte list \<times> error option) option) option"
where
  "Read sc RC_Select (Case_rdChan b) = Some (RC_WaitErr b, None)"
| "Read sc (RC_WaitErr b) (Case_errChan err) = Some (RC_Idle, Some (b, err))"
| "Read sc (RC_WaitErr b) Case_Closed = Some (RC_Idle, Some (b, None))"
| "Read sc RC_Select Case_Closed = Some (RC_Idle, Some ([], Some ErrClosedPort))"
| "Read sc RC_Select Case_After =
     Some (RC_Idle, Some ([], Some (ReadTimeoutError (ReadTimeout sc))))"
| "Read sc _ _ = None"

text \<open>\<^verbatim>\<open>Write\<close>, in the same way; the frame offered on \<^verbatim>\<open>wrChan\<close> is the argument.\<close>

fun Write ::
  "'p SerialConnection \<Rightarrow> wc_pc \<Rightarrow> select_case \<Rightarrow> (wc_pc \<times> error option option) option"
where
  "Write sc (WC_Select b) (Case_wrChan b') = (if b' = b then Some (WC_WaitErr, None) else None)"
| "Write sc WC_WaitErr (Case_errChan err) = Some (WC_Idle, Some err)"
| "Write sc WC_WaitErr Case_Closed = Some (WC_Idle, Some (Some ErrClosedPort))"
| "Write sc (WC_Select b) Case_Closed = Some (WC_Idle, Some (Some ErrClosedPort))"
| "Write sc (WC_Select b) Case_After =
     Some (WC_Idle, Some (Some (WriteTimeoutError (WriteTimeout sc))))"
| "Write sc _ _ = None"

text \<open>
  \<^verbatim>\<open>readRoutine\<close>: the two \<^verbatim>\<open>select\<close>s. It offers its own frame and its own error, and
  returns when it takes the case of \<^verbatim>\<open>sc.Closed()\<close>.
\<close>

fun readRoutine :: "rw_pc \<Rightarrow> select_case \<Rightarrow> rw_pc option" where
  "readRoutine (RW_SendFrame f err) (Case_rdChan f') =
     (if f' = f then Some (RW_SendErr err) else None)"
| "readRoutine (RW_SendFrame f err) Case_Closed = Some RW_Exited"
| "readRoutine (RW_SendErr err) (Case_errChan err') =
     (if err' = err then Some RW_Read else None)"
| "readRoutine (RW_SendErr err) Case_Closed = Some RW_Exited"
| "readRoutine _ _ = None"

text \<open>
  The physical reads at the top of its loop, up to the first \<^verbatim>\<open>select\<close>. They are one
  step: nothing but \<^verbatim>\<open>readRoutine\<close> reads the port, and a pass whose reads never all
  return leaves the goroutine where it is, as a blocked read does.
\<close>

definition readRoutine_io :: "byte \<Rightarrow> rw_pc \<Rightarrow> port \<Rightarrow> (rw_pc \<times> port) option" where
  "readRoutine_io stop pc p =
     (if pc = RW_Read
      then (case read_frame stop p of
              None \<Rightarrow> None
            | Some (f, err, p') \<Rightarrow> Some (RW_SendFrame f err, p'))
      else None)"

text \<open>\<^verbatim>\<open>writeRoutine\<close>: the two \<^verbatim>\<open>select\<close>s, and the physical write between them.\<close>

fun writeRoutine :: "ww_pc \<Rightarrow> select_case \<Rightarrow> ww_pc option" where
  "writeRoutine WW_Recv (Case_wrChan b) = Some (WW_Write b)"
| "writeRoutine WW_Recv Case_Closed = Some WW_Exited"
| "writeRoutine (WW_SendErr err) (Case_errChan err') =
     (if err' = err then Some WW_Recv else None)"
| "writeRoutine (WW_SendErr err) Case_Closed = Some WW_Exited"
| "writeRoutine _ _ = None"

definition writeRoutine_io :: "ww_pc \<Rightarrow> port \<Rightarrow> (ww_pc \<times> port) option" where
  "writeRoutine_io pc p =
     (case pc of
        WW_Write b \<Rightarrow>
          (case port_write b p of
             None \<Rightarrow> None
           | Some (err, p') \<Rightarrow> Some (WW_SendErr err, p'))
      | _ \<Rightarrow> None)"

text \<open>
  \<^verbatim>\<open>Start\<close>: \<^verbatim>\<open>sc.wg.Add(2)\<close> and the two goroutines. It can be called once: the
  goroutines must not have been started before.
\<close>

definition Start :: "'p transport \<Rightarrow> 'p transport option" where
  "Start s =
     (if rw s = RW_NotStarted \<and> ww s = WW_NotStarted
      then Some (s\<lparr>wg := wg s + 2, rw := RW_Read, ww := WW_Recv\<rparr>)
      else None)"

text \<open>
  \<^verbatim>\<open>Close\<close>, one statement at a time. Closing a closed channel panics, and
  \<^verbatim>\<open>sc.wg.Wait()\<close> returns when the counter is zero.
\<close>

definition Close :: "'p transport \<Rightarrow> 'p transport option" where
  "Close s =
     (case cc s of
        CC_Idle \<Rightarrow> None
      | CC_Check \<Rightarrow>
          Some (if Closed s
                then s\<lparr>cc := CC_Idle, close_log := close_log s @ [Some ErrClosedPort]\<rparr>
                else s\<lparr>cc := CC_Fire\<rparr>)
      | CC_Fire \<Rightarrow>
          (if closeChan s then None else Some (s\<lparr>closeChan := True, cc := CC_PortClose\<rparr>))
      | CC_PortClose \<Rightarrow>
          (case port_close (dev s) of (err, p') \<Rightarrow> Some (s\<lparr>dev := p', cc := CC_Wait err\<rparr>))
      | CC_Wait err \<Rightarrow>
          (if wg s = 0
           then Some (s\<lparr>cc := CC_Idle, close_log := close_log s @ [err]\<rparr>)
           else None))"

subsection \<open>The steps of a connection\<close>

datatype routine = ReadRoutine | WriteRoutine

datatype caller = ReadCall | WriteCall

text \<open>
  A goroutine takes a case of its \<^verbatim>\<open>select\<close>; when the routine returns, the wrapper of
  \<^verbatim>\<open>Start\<close> calls \<^verbatim>\<open>sc.wg.Done()\<close>.
\<close>

fun routine_case :: "routine \<Rightarrow> select_case \<Rightarrow> 'p transport \<Rightarrow> 'p transport option" where
  "routine_case ReadRoutine c s =
     (case readRoutine (rw s) c of
        None \<Rightarrow> None
      | Some pc \<Rightarrow> Some (if pc = RW_Exited then s\<lparr>rw := pc, wg := wg s - 1\<rparr> else s\<lparr>rw := pc\<rparr>))"
| "routine_case WriteRoutine c s =
     (case writeRoutine (ww s) c of
        None \<Rightarrow> None
      | Some pc \<Rightarrow> Some (if pc = WW_Exited then s\<lparr>ww := pc, wg := wg s - 1\<rparr> else s\<lparr>ww := pc\<rparr>))"

text \<open>A call takes a case of its \<^verbatim>\<open>select\<close>; what it returns is appended to its log.\<close>

fun caller_case :: "caller \<Rightarrow> select_case \<Rightarrow> 'p transport \<Rightarrow> 'p transport option" where
  "caller_case ReadCall c s =
     (case Read (conn s) (rc s) c of
        None \<Rightarrow> None
      | Some (pc, r) \<Rightarrow>
          Some (s\<lparr>rc := pc, read_log := read_log s @ (case r of None \<Rightarrow> [] | Some x \<Rightarrow> [x])\<rparr>))"
| "caller_case WriteCall c s =
     (case Write (conn s) (wc s) c of
        None \<Rightarrow> None
      | Some (pc, r) \<Rightarrow>
          Some (s\<lparr>wc := pc, write_log := write_log s @ (case r of None \<Rightarrow> [] | Some x \<Rightarrow> [x])\<rparr>))"

text \<open>
  What can happen next. A call begins (\<open>Call_\<close>); \<^verbatim>\<open>Close\<close> runs its next statement; a
  goroutine does its physical input or output; a value passes over a channel from the
  goroutine or call that sends it to the one that receives it, both being at a
  \<^verbatim>\<open>select\<close> with that case; a \<^verbatim>\<open>select\<close> takes the case of \<^verbatim>\<open>sc.Closed()\<close>, which needs
  \<^verbatim>\<open>closeChan\<close> closed; the timer of a call fires. Both goroutines send on the one
  \<^verbatim>\<open>sc.errChan\<close> and both calls receive from it. A step that cannot happen in a state has
  no result.
\<close>

datatype event =
    Call_Start
  | Call_Read
  | Call_Write "byte list"
  | Call_Close
  | Run_Close
  | IO routine
  | Sync_rdChan "byte list"
  | Sync_wrChan "byte list"
  | Sync_errChan routine caller "error option"
  | Closed_routine routine
  | Closed_caller caller
  | Timer caller

fun step :: "byte \<Rightarrow> event \<Rightarrow> 'p transport \<Rightarrow> 'p transport option" where
  "step stop Call_Start s = Start s"
| "step stop Call_Read s = (if rc s = RC_Idle then Some (s\<lparr>rc := RC_Select\<rparr>) else None)"
| "step stop (Call_Write b) s = (if wc s = WC_Idle then Some (s\<lparr>wc := WC_Select b\<rparr>) else None)"
| "step stop Call_Close s = (if cc s = CC_Idle then Some (s\<lparr>cc := CC_Check\<rparr>) else None)"
| "step stop Run_Close s = Close s"
| "step stop (IO ReadRoutine) s =
     (case readRoutine_io stop (rw s) (dev s) of
        None \<Rightarrow> None
      | Some (pc, p') \<Rightarrow> Some (s\<lparr>rw := pc, dev := p'\<rparr>))"
| "step stop (IO WriteRoutine) s =
     (case writeRoutine_io (ww s) (dev s) of
        None \<Rightarrow> None
      | Some (pc, p') \<Rightarrow> Some (s\<lparr>ww := pc, dev := p'\<rparr>))"
| "step stop (Sync_rdChan f) s =
     (case routine_case ReadRoutine (Case_rdChan f) s of
        None \<Rightarrow> None
      | Some s' \<Rightarrow> caller_case ReadCall (Case_rdChan f) s')"
| "step stop (Sync_wrChan b) s =
     (case caller_case WriteCall (Case_wrChan b) s of
        None \<Rightarrow> None
      | Some s' \<Rightarrow> routine_case WriteRoutine (Case_wrChan b) s')"
| "step stop (Sync_errChan r k err) s =
     (case routine_case r (Case_errChan err) s of
        None \<Rightarrow> None
      | Some s' \<Rightarrow> caller_case k (Case_errChan err) s')"
| "step stop (Closed_routine r) s = (if Closed s then routine_case r Case_Closed s else None)"
| "step stop (Closed_caller k) s = (if Closed s then caller_case k Case_Closed s else None)"
| "step stop (Timer k) s = caller_case k Case_After s"

fun run :: "byte \<Rightarrow> event list \<Rightarrow> 'p transport \<Rightarrow> 'p transport option" where
  "run stop [] s = Some s"
| "run stop (e # es) s = (case step stop e s of None \<Rightarrow> None | Some s' \<Rightarrow> run stop es s')"

subsection \<open>A whole call of \<^verbatim>\<open>Close\<close>\<close>

text \<open>
  \<^verbatim>\<open>conn.Close()\<close> made by a caller that has no \<^verbatim>\<open>Read\<close> and no \<^verbatim>\<open>Write\<close> in progress,
  from the call to the return. On a connection already closed these are the call and the
  first statement. Otherwise \<^verbatim>\<open>Close\<close> runs up to \<^verbatim>\<open>sc.wg.Wait()\<close>, the two goroutines
  run until they return, and \<^verbatim>\<open>Close\<close> returns: a goroutine that is in its physical read
  or write finishes it first, and at a \<^verbatim>\<open>select\<close>, with nobody to hand anything to, it
  takes the case of \<^verbatim>\<open>sc.Closed()\<close>. There is no result when one of these steps is
  impossible: a physical read or write that never returns keeps \<^verbatim>\<open>Close\<close> waiting for
  ever.
\<close>

definition shutdown_schedule :: "'p transport \<Rightarrow> event list" where
  "shutdown_schedule s =
     (case rw s of
        RW_Read \<Rightarrow> [IO ReadRoutine, Closed_routine ReadRoutine]
      | RW_SendFrame f err \<Rightarrow> [Closed_routine ReadRoutine]
      | RW_SendErr err \<Rightarrow> [Closed_routine ReadRoutine]
      | _ \<Rightarrow> []) @
     (case ww s of
        WW_Recv \<Rightarrow> [Closed_routine WriteRoutine]
      | WW_Write b \<Rightarrow> [IO WriteRoutine, Closed_routine WriteRoutine]
      | WW_SendErr err \<Rightarrow> [Closed_routine WriteRoutine]
      | _ \<Rightarrow> [])"

definition Close_schedule :: "'p transport \<Rightarrow> event list" where
  "Close_schedule s =
     (if Closed s then [Call_Close, Run_Close]
      else [Call_Close, Run_Close, Run_Close, Run_Close] @ shutdown_schedule s @ [Run_Close])"

definition Close_call :: "byte \<Rightarrow> 'p transport \<Rightarrow> 'p transport option" where
  "Close_call stop s = run stop (Close_schedule s) s"

subsection \<open>Discovery: \<^verbatim>\<open>FindSerial\<close>\<close>

text \<open>
  The loop over the names and the two returns after it. \<open>Open'\<close> is \<^verbatim>\<open>serial.Open\<close>: it
  fails, or gives the handle and the physical port behind it. \<^verbatim>\<open>conn.Start()\<close> is
  \<open>Start\<close> above and \<^verbatim>\<open>conn.Close()\<close> is \<open>Close_call\<close>; when that call never returns,
  neither does \<^verbatim>\<open>FindSerial\<close>, which is the result \<open>None\<close>. \<open>probe\<close> is
  \<^verbatim>\<open>TestConnection\<close> of the temporary \<^verbatim>\<open>RegenBox\<close> made around the connection, a method
  of another file of the package: from the started connection it gives a duration, an
  error and the state in which it leaves the connection. The argument \<open>err\<close> is the
  variable \<^verbatim>\<open>err\<close> of the function: \<^verbatim>\<open>serial.Open\<close> assigns it, while
  \<^verbatim>\<open>t, err := rb.TestConnection()\<close> declares a new \<^verbatim>\<open>err\<close> in the block of the \<^verbatim>\<open>if\<close> and
  leaves it alone. Beside what the function returns, the result has the connections it
  has closed, as \<^verbatim>\<open>Close\<close> left them, and the names it has passed to \<^verbatim>\<open>serial.Open\<close>,
  both in order.
\<close>

fun FindSerial_loop ::
  "byte \<Rightarrow> (string \<Rightarrow> mode \<Rightarrow> error + 'p \<times> port) \<Rightarrow>
   ('p transport \<Rightarrow> (duration \<times> error option) \<times> 'p transport) \<Rightarrow>
   mode \<Rightarrow> string list \<Rightarrow> error option \<Rightarrow> 'p transport list \<times> string list \<Rightarrow>
   (('p transport option \<times> error option) \<times> 'p transport list \<times> string list) option"
where
  "FindSerial_loop stop Open' probe cfg [] err w =
     Some (if err = None then ((None, Some ErrNoSerialPortFound), w) else ((None, err), w))"
| "FindSerial_loop stop Open' probe cfg (v # vs) err (closed, opened) =
     (case Open' v cfg of
        Inl e \<Rightarrow> FindSerial_loop stop Open' probe cfg vs (Some e) (closed, opened @ [v])
      | Inr (port', d) \<Rightarrow>
          (let conn0 = NewSerial port' cfg v False;
               conn1 = conn0\<lparr>ReadTimeout := Millisecond * 50, WriteTimeout := Millisecond * 50\<rparr>
           in (case Start (new_transport conn1 d) of
                 None \<Rightarrow> None
               | Some s0 \<Rightarrow>
                   (case probe s0 of
                      ((t, None), s1) \<Rightarrow>
                        Some ((Some (s1\<lparr>conn := (conn s1)\<lparr>ReadTimeout := DefaultTimeout,
                                                          WriteTimeout := DefaultTimeout\<rparr>\<rparr>),
                               None),
                              (closed, opened @ [v]))
                    | ((t, Some e'), s1) \<Rightarrow>
                        (case Close_call stop s1 of
                           None \<Rightarrow> None
                         | Some s2 \<Rightarrow>
                             FindSerial_loop stop Open' probe cfg vs None
                               (closed @ [s2], opened @ [v]))))))"

text \<open>
  \<open>GetPortsList\<close> is the result of \<^verbatim>\<open>serial.GetPortsList()\<close>; \<open>config'\<close> is the
  argument, \<open>None\<close> for \<^verbatim>\<open>nil\<close>.
\<close>

definition FindSerial ::
  "byte \<Rightarrow> (error + string list) \<Rightarrow> (string \<Rightarrow> mode \<Rightarrow> error + 'p \<times> port) \<Rightarrow>
   ('p transport \<Rightarrow> (duration \<times> error option) \<times> 'p transport) \<Rightarrow> mode option \<Rightarrow>
   (('p transport option \<times> error option) \<times> 'p transport list \<times> string list) option"
where
  "FindSerial stop GetPortsList Open' probe config' =
     (case GetPortsList of
        Inl e \<Rightarrow> Some ((None, Some e), ([], []))
      | Inr ports \<Rightarrow>
          FindSerial_loop stop Open' probe
            (case config' of None \<Rightarrow> DefaultSerialConfig | Some c \<Rightarrow> c) ports None ([], []))"

subsection \<open>Notions used to state the properties of \<^verbatim>\<open>FindSerial\<close>\<close>

text \<open>
  The configuration in use; the struct and the started connection as the probe gets
  them; a candidate that does not open or does not pass its probe; a candidate the
  \<^verbatim>\<open>Close\<close> of whose connection, after its probe, returns; the value of the variable
  \<^verbatim>\<open>err\<close> after the loop when no candidate passed, which is what the last \<^verbatim>\<open>serial.Open\<close>
  returned; and the errors met on the way, from \<^verbatim>\<open>serial.Open\<close> and from the probe,
  oldest first.
\<close>

definition chosen_config :: "mode option \<Rightarrow> mode" where
  "chosen_config config' = (case config' of None \<Rightarrow> DefaultSerialConfig | Some c \<Rightarrow> c)"

definition probed :: "'p \<Rightarrow> mode \<Rightarrow> string \<Rightarrow> 'p SerialConnection" where
  "probed p cfg v =
     (NewSerial p cfg v False)\<lparr>ReadTimeout := Millisecond * 50, WriteTimeout := Millisecond * 50\<rparr>"

definition probing :: "'p \<Rightarrow> port \<Rightarrow> mode \<Rightarrow> string \<Rightarrow> 'p transport" where
  "probing p d cfg v = (new_transport (probed p cfg v) d)\<lparr>wg := 2, rw := RW_Read, ww := WW_Recv\<rparr>"

definition candidate_fails ::
  "(string \<Rightarrow> mode \<Rightarrow> error + 'p \<times> port) \<Rightarrow>
   ('p transport \<Rightarrow> (duration \<times> error option) \<times> 'p transport) \<Rightarrow> mode \<Rightarrow> string \<Rightarrow> bool" where
  "candidate_fails Open' probe cfg v =
     (case Open' v cfg of
        Inl e \<Rightarrow> True
      | Inr (p, d) \<Rightarrow> snd (fst (probe (probing p d cfg v))) \<noteq> None)"

definition close_returns ::
  "byte \<Rightarrow> (string \<Rightarrow> mode \<Rightarrow> error + 'p \<times> port) \<Rightarrow>
   ('p transport \<Rightarrow> (duration \<times> error option) \<times> 'p transport) \<Rightarrow> mode \<Rightarrow> string \<Rightarrow> bool" where
  "close_returns stop Open' probe cfg v =
     (case Open' v cfg of
        Inl e \<Rightarrow> True
      | Inr (p, d) \<Rightarrow> Close_call stop (snd (probe (probing p d cfg v))) \<noteq> None)"

definition last_recorded_error ::
  "(string \<Rightarrow> mode \<Rightarrow> error + 'p \<times> port) \<Rightarrow> mode \<Rightarrow> string list \<Rightarrow> error option" where
  "last_recorded_error Open' cfg ports =
     (if ports = [] then None
      else (case Open' (last ports) cfg of Inl e \<Rightarrow> Some e | Inr p \<Rightarrow> None))"

fun errors_encountered ::
  "(string \<Rightarrow> mode \<Rightarrow> error + 'p \<times> port) \<Rightarrow>
   ('p transport \<Rightarrow> (duration \<times> error option) \<times> 'p transport) \<Rightarrow> mode \<Rightarrow> string list \<Rightarrow>
   error list" where
  "errors_encountered Open' probe cfg [] = []"
| "errors_encountered Open' probe cfg (v # vs) =
     (case Open' v cfg of
        Inl e \<Rightarrow> e # errors_encountered Open' probe cfg vs
      | Inr (p, d) \<Rightarrow>
          (case snd (fst (probe (probing p d cfg v))) of
             None \<Rightarrow> []
           | Some e \<Rightarrow> e # errors_encountered Open' probe cfg vs))"

subsection \<open>What a client of a connection can see\<close>

text \<open>
  The results of the calls of \<^verbatim>\<open>Read\<close>, \<^verbatim>\<open>Write\<close> and \<^verbatim>\<open>Close\<close> made so far, and
  the present answers of \<^verbatim>\<open>Closed\<close> and \<^verbatim>\<open>Path\<close>; and the update of the field
  \<^verbatim>\<open>locked\<close> of the struct.
\<close>

definition observe ::
  "'p transport \<Rightarrow> (byte list \<times> error option) list \<times> error option list \<times> error option list \<times> bool \<times> string" where
  "observe s = (read_log s, write_log s, close_log s, Closed s, Path (conn s))"

definition set_locked :: "bool \<Rightarrow> 'p transport \<Rightarrow> 'p transport" where
  "set_locked l s = s\<lparr>conn := (conn s)\<lparr>locked := l\<rparr>\<rparr>"

subsection \<open>Sample ports and connections\<close>

text \<open>
  A port whose device sends the frame \<open>1 2 3\<close> and the stop byte \<open>10\<close> in two pieces,
  and whose first physical write fails.
\<close>

definition demo_port :: port where
  "demo_port =
     \<lparr>rd_script = [([1, 2], None), ([3, 10], None)],
      wr_script = [Some (PortError ''write failed'')],
      written = [], close_result = None, closes = 0\<rparr>"

definition demo_transport :: "unit transport" where
  "demo_transport = new_transport (NewSerial () DefaultSerialConfig ''/dev/ttyUSB0'' False) demo_port"

text \<open>A port whose device never sends anything and never accepts a write.\<close>

definition stuck_port :: port where
  "stuck_port = \<lparr>rd_script = [], wr_script = [], written = [], close_result = None, closes = 0\<rparr>"

definition stuck_transport :: "unit transport" where
  "stuck_transport = new_transport (NewSerial () DefaultSerialConfig ''/dev/ttyUSB0'' False) stuck_port"

text \<open>
  A port whose device sends 33 bytes \<open>65\<close> and then the stop byte \<open>10\<close>, in two pieces.
\<close>

definition long_port :: port where
  "long_port =
     \<lparr>rd_script = [(replicate 20 65, None), (replicate 13 65 @ [10], None)],
      wr_script = [], written = [], close_result = None, closes = 0\<rparr>"

definition long_transport :: "unit transport" where
  "long_transport = new_transport (NewSerial () DefaultSerialConfig ''/dev/ttyUSB0'' False) long_port"

text \<open>
  A port one of whose physical reads returns no byte and no error, between the two
  pieces of the frame \<open>1 2 3\<close>.
\<close>

definition gap_port :: port where
  "gap_port =
     \<lparr>rd_script = [([1, 2], None), ([], None), ([3, 10], None)],
      wr_script = [], written = [], close_result = None, closes = 0\<rparr>"

definition gap_transport :: "unit transport" where
  "gap_transport = new_transport (NewSerial () DefaultSerialConfig ''/dev/ttyUSB0'' False) gap_port"

text \<open>
  A port whose pending physical read returns an error, as a read does once the port is
  closed under it, and whose device sends nothing.
\<close>

definition closing_port :: port where
  "closing_port =
     \<lparr>rd_script = [([], Some (PortError ''port closed''))],
      wr_script = [], written = [], close_result = None, closes = 0\<rparr>"



text \<open>
  Four names for \<^verbatim>\<open>FindSerial\<close>: the first is busy, the second opens on the port given
  as argument, the third opens on the sample port, the fourth does not exist. The
  sample probe reads one frame and passes when it is \<open>1 2 3\<close>; when no such frame can
  come, its \<^verbatim>\<open>Read\<close> times out.
\<close>

definition demo_Open :: "port \<Rightarrow> string \<Rightarrow> mode \<Rightarrow> error + nat \<times> port" where
  "demo_Open d v cfg =
     (if v = ''COM1'' then Inl (PortError ''busy'')
      else if v = ''COM2'' then Inr (2, d)
      else if v = ''COM3'' then Inr (3, demo_port)
      else Inl (PortError ''no such port''))"

definition demo_probe :: "nat transport \<Rightarrow> (duration \<times> error option) \<times> nat transport" where
  "demo_probe s =
     (case run 10 [Call_Read, IO ReadRoutine, Sync_rdChan [1, 2, 3],
                   Sync_errChan ReadRoutine ReadCall None] s of
        Some s' \<Rightarrow> ((5, None), s')
      | None \<Rightarrow>
          (case run 10 [Call_Read, Timer ReadCall] s of
             Some s' \<Rightarrow> ((0, Some (ReadTimeoutError (ReadTimeout (conn s)))), s')
           | None \<Rightarrow> ((0, Some ErrClosedPort), s)))"

text \<open>The definitions to unfold when a run of a sample is evaluated.\<close>

lemmas demo_defs =
  demo_transport_def demo_port_def new_transport_def NewSerial_def Start_def Close_def
  Closed_def readRoutine_io_def writeRoutine_io_def read_frame_def port_read_def
  port_write_def port_close_def read_loop.simps strip_stop_def

text \<open>The definitions to unfold when \<^verbatim>\<open>FindSerial\<close> is evaluated on the sample names.\<close>

lemmas FindSerial_demo_defs =
  FindSerial_def demo_Open_def demo_probe_def probed_def probing_def closing_port_def stuck_port_def
  Close_call_def Close_schedule_def shutdown_schedule_def Let_def DefaultTimeout_def Second_def
  Millisecond_def

subsection \<open>What holds along the runs\<close>

text \<open>Chunks of bytes that arrive one after the other, none with an error.\<close>

definition arrivals :: "byte list list \<Rightarrow> (byte list \<times> error option) list" where
  "arrivals cs = map (\<lambda>c. (c, None)) cs"

text \<open>
  Every frame in flight and every frame returned so far has at most 32 bytes.
\<close>

definition frames_bounded :: "'p transport \<Rightarrow> bool" where
  "frames_bounded s =
     ((case rw s of RW_SendFrame f err \<Rightarrow> length f \<le> 32 | _ \<Rightarrow> True) \<and>
      (case rc s of RC_WaitErr b \<Rightarrow> length b \<le> 32 | _ \<Rightarrow> True) \<and>
      list_all (\<lambda>r. length (fst r) \<le> 32) (read_log s))"

text \<open>
  The state of \<^verbatim>\<open>readRoutine\<close> as long as no frame has passed over \<^verbatim>\<open>rdChan\<close>, on a
  port that delivers the chunks \<open>cs\<close> and then \<open>rest\<close>: it has not read yet, or it has
  the frame \<open>F\<close> ready, or it has returned.
\<close>

definition awaiting_first ::
  "byte list list \<Rightarrow> (byte list \<times> error option) list \<Rightarrow> byte list \<Rightarrow> 'p transport \<Rightarrow> bool" where
  "awaiting_first cs rest F s =
     (((rw s = RW_NotStarted \<or> rw s = RW_Read) \<and> rd_script (dev s) = arrivals cs @ rest) \<or>
      rw s = RW_SendFrame F None \<or> rw s = RW_Exited)"

text \<open>
  A \<^verbatim>\<open>Write\<close> has handed its frame over, nobody has called \<^verbatim>\<open>Close\<close>, and the port
  neither sends anything nor accepts the write.
\<close>

definition write_stuck :: "'p transport \<Rightarrow> bool" where
  "write_stuck s =
     (wc s = WC_WaitErr \<and> write_log s = [] \<and> cc s = CC_Idle \<and> \<not> closeChan s \<and>
      rw s = RW_Read \<and> rd_script (dev s) = [] \<and>
      (case ww s of WW_Write b \<Rightarrow> True | _ \<Rightarrow> False) \<and> wr_script (dev s) = [])"

text \<open>
  What holds of \<^verbatim>\<open>Close\<close> in every state, for a port whose physical close returns \<open>r\<close>
  and that had been closed \<open>n\<close> times before: the wait group counts the goroutines
  that run, and the program point of \<^verbatim>\<open>Close\<close> tells whether the signal has fired,
  whether the port has been closed, and what the calls have returned.
\<close>

definition close_log_ok :: "error option \<Rightarrow> error option list \<Rightarrow> bool" where
  "close_log_ok r log =
     (case log of [] \<Rightarrow> False | x # xs \<Rightarrow> x = r \<and> list_all (\<lambda>y. y = Some ErrClosedPort) xs)"

definition running :: "'p transport \<Rightarrow> nat" where
  "running s =
     (if rw s = RW_NotStarted \<or> rw s = RW_Exited then 0 else 1) +
     (if ww s = WW_NotStarted \<or> ww s = WW_Exited then 0 else 1)"

definition close_inv :: "error option \<Rightarrow> nat \<Rightarrow> 'p transport \<Rightarrow> bool" where
  "close_inv r n s =
     (close_result (dev s) = r \<and> wg s = running s \<and>
      (rw s = RW_NotStarted \<longleftrightarrow> ww s = WW_NotStarted) \<and>
      (case cc s of
         CC_Fire \<Rightarrow> \<not> closeChan s \<and> closes (dev s) = n \<and> close_log s = []
       | CC_PortClose \<Rightarrow> closeChan s \<and> closes (dev s) = n \<and> close_log s = []
       | CC_Wait err \<Rightarrow> closeChan s \<and> closes (dev s) = Suc n \<and> close_log s = [] \<and> err = r
       | _ \<Rightarrow>
           if closeChan s then closes (dev s) = Suc n \<and> close_log_ok r (close_log s)
           else closes (dev s) = n \<and> close_log s = []))"



section \<open>Properties\<close>

subsection \<open>Runs\<close>

lemma run_invariant_on:
  assumes step: "\<And>e s s'. I s \<Longrightarrow> e \<in> E \<Longrightarrow> step stop e s = Some s' \<Longrightarrow> I s'"
    and "I s" and "set es \<subseteq> E" and "run stop es s = Some s'"
  shows "I s'"
  using assms(2-)
proof (induction es arbitrary: s)
  case Nil
  then show ?case by simp
next
  case (Cons e es)
  from Cons.prems(3) obtain t where t: "step stop e s = Some t" and r: "run stop es t = Some s'"
    by (auto split: option.splits)
  from Cons.prems(1,2) t have "I t" by (auto intro: step)
  with Cons.IH r Cons.prems(2) show ?case by simp
qed

lemma run_invariant:
  assumes "\<And>e s s'. I s \<Longrightarrow> step stop e s = Some s' \<Longrightarrow> I s'"
    and "I s" and "run stop es s = Some s'"
  shows "I s'"
  using run_invariant_on [where E = UNIV and I = I] assms by blast

lemma run_append:
  "run stop (es @ es') s = (case run stop es s of None \<Rightarrow> None | Some t \<Rightarrow> run stop es' t)"
  by (induction es arbitrary: s) (simp_all split: option.splits)

subsection \<open>The steps, one by one\<close>

lemma readRoutine_Some:
  "readRoutine pc c = Some pc' \<longleftrightarrow>
     (\<exists>f err. pc = RW_SendFrame f err \<and> c = Case_rdChan f \<and> pc' = RW_SendErr err) \<or>
     (\<exists>f err. pc = RW_SendFrame f err \<and> c = Case_Closed \<and> pc' = RW_Exited) \<or>
     (\<exists>err. pc = RW_SendErr err \<and> c = Case_errChan err \<and> pc' = RW_Read) \<or>
     (\<exists>err. pc = RW_SendErr err \<and> c = Case_Closed \<and> pc' = RW_Exited)"
  by (cases "(pc, c)" rule: readRoutine.cases) auto

lemma writeRoutine_Some:
  "writeRoutine pc c = Some pc' \<longleftrightarrow>
     (\<exists>b. pc = WW_Recv \<and> c = Case_wrChan b \<and> pc' = WW_Write b) \<or>
     (pc = WW_Recv \<and> c = Case_Closed \<and> pc' = WW_Exited) \<or>
     (\<exists>err. pc = WW_SendErr err \<and> c = Case_errChan err \<and> pc' = WW_Recv) \<or>
     (\<exists>err. pc = WW_SendErr err \<and> c = Case_Closed \<and> pc' = WW_Exited)"
  by (cases "(pc, c)" rule: writeRoutine.cases) auto

lemma Read_Some:
  "Read sc pc c = Some x \<longleftrightarrow>
     (\<exists>b. pc = RC_Select \<and> c = Case_rdChan b \<and> x = (RC_WaitErr b, None)) \<or>
     (\<exists>b err. pc = RC_WaitErr b \<and> c = Case_errChan err \<and> x = (RC_Idle, Some (b, err))) \<or>
     (\<exists>b. pc = RC_WaitErr b \<and> c = Case_Closed \<and> x = (RC_Idle, Some (b, None))) \<or>
     (pc = RC_Select \<and> c = Case_Closed \<and> x = (RC_Idle, Some ([], Some ErrClosedPort))) \<or>
     (pc = RC_Select \<and> c = Case_After \<and>
        x = (RC_Idle, Some ([], Some (ReadTimeoutError (ReadTimeout sc)))))"
  by (cases "(sc, pc, c)" rule: Read.cases) auto

lemma Write_Some:
  "Write sc pc c = Some x \<longleftrightarrow>
     (\<exists>b. pc = WC_Select b \<and> c = Case_wrChan b \<and> x = (WC_WaitErr, None)) \<or>
     (\<exists>err. pc = WC_WaitErr \<and> c = Case_errChan err \<and> x = (WC_Idle, Some err)) \<or>
     (pc = WC_WaitErr \<and> c = Case_Closed \<and> x = (WC_Idle, Some (Some ErrClosedPort))) \<or>
     (\<exists>b. pc = WC_Select b \<and> c = Case_Closed \<and> x = (WC_Idle, Some (Some ErrClosedPort))) \<or>
     (\<exists>b. pc = WC_Select b \<and> c = Case_After \<and>
        x = (WC_Idle, Some (Some (WriteTimeoutError (WriteTimeout sc)))))"
  by (cases "(sc, pc, c)" rule: Write.cases) auto


lemma routine_case_Read_Some:
  "routine_case ReadRoutine c s = Some s' \<longleftrightarrow>
     (\<exists>f err. rw s = RW_SendFrame f err \<and> c = Case_rdChan f \<and> s' = s\<lparr>rw := RW_SendErr err\<rparr>) \<or>
     (\<exists>f err. rw s = RW_SendFrame f err \<and> c = Case_Closed \<and>
        s' = s\<lparr>rw := RW_Exited, wg := wg s - 1\<rparr>) \<or>
     (\<exists>err. rw s = RW_SendErr err \<and> c = Case_errChan err \<and> s' = s\<lparr>rw := RW_Read\<rparr>) \<or>
     (\<exists>err. rw s = RW_SendErr err \<and> c = Case_Closed \<and> s' = s\<lparr>rw := RW_Exited, wg := wg s - 1\<rparr>)"
  by (auto simp: readRoutine_Some split: option.splits)

lemma routine_case_Write_Some:
  "routine_case WriteRoutine c s = Some s' \<longleftrightarrow>
     (\<exists>b. ww s = WW_Recv \<and> c = Case_wrChan b \<and> s' = s\<lparr>ww := WW_Write b\<rparr>) \<or>
     (ww s = WW_Recv \<and> c = Case_Closed \<and> s' = s\<lparr>ww := WW_Exited, wg := wg s - 1\<rparr>) \<or>
     (\<exists>err. ww s = WW_SendErr err \<and> c = Case_errChan err \<and> s' = s\<lparr>ww := WW_Recv\<rparr>) \<or>
     (\<exists>err. ww s = WW_SendErr err \<and> c = Case_Closed \<and> s' = s\<lparr>ww := WW_Exited, wg := wg s - 1\<rparr>)"
  by (auto simp: writeRoutine_Some split: option.splits)

lemma caller_case_Read_Some:
  "caller_case ReadCall c s = Some s' \<longleftrightarrow>
     (\<exists>b. rc s = RC_Select \<and> c = Case_rdChan b \<and> s' = s\<lparr>rc := RC_WaitErr b\<rparr>) \<or>
     (\<exists>b err. rc s = RC_WaitErr b \<and> c = Case_errChan err \<and>
        s' = s\<lparr>rc := RC_Idle, read_log := read_log s @ [(b, err)]\<rparr>) \<or>
     (\<exists>b. rc s = RC_WaitErr b \<and> c = Case_Closed \<and>
        s' = s\<lparr>rc := RC_Idle, read_log := read_log s @ [(b, None)]\<rparr>) \<or>
     (rc s = RC_Select \<and> c = Case_Closed \<and>
        s' = s\<lparr>rc := RC_Idle, read_log := read_log s @ [([], Some ErrClosedPort)]\<rparr>) \<or>
     (rc s = RC_Select \<and> c = Case_After \<and>
        s' = s\<lparr>rc := RC_Idle,
               read_log := read_log s @ [([], Some (ReadTimeoutError (ReadTimeout (conn s))))]\<rparr>)"
  by (auto simp: Read_Some split: option.splits)

lemma caller_case_Write_Some:
  "caller_case WriteCall c s = Some s' \<longleftrightarrow>
     (\<exists>b. wc s = WC_Select b \<and> c = Case_wrChan b \<and> s' = s\<lparr>wc := WC_WaitErr\<rparr>) \<or>
     (\<exists>err. wc s = WC_WaitErr \<and> c = Case_errChan err \<and>
        s' = s\<lparr>wc := WC_Idle, write_log := write_log s @ [err]\<rparr>) \<or>
     (wc s = WC_WaitErr \<and> c = Case_Closed \<and>
        s' = s\<lparr>wc := WC_Idle, write_log := write_log s @ [Some ErrClosedPort]\<rparr>) \<or>
     (\<exists>b. wc s = WC_Select b \<and> c = Case_Closed \<and>
        s' = s\<lparr>wc := WC_Idle, write_log := write_log s @ [Some ErrClosedPort]\<rparr>) \<or>
     (\<exists>b. wc s = WC_Select b \<and> c = Case_After \<and>
        s' = s\<lparr>wc := WC_Idle,
               write_log := write_log s @ [Some (WriteTimeoutError (WriteTimeout (conn s)))]\<rparr>)"
  by (auto simp: Write_Some split: option.splits)


lemma Close_Some:
  "Close s = Some s' \<longleftrightarrow>
     (cc s = CC_Check \<and> closeChan s \<and>
        s' = s\<lparr>cc := CC_Idle, close_log := close_log s @ [Some ErrClosedPort]\<rparr>) \<or>
     (cc s = CC_Check \<and> \<not> closeChan s \<and> s' = s\<lparr>cc := CC_Fire\<rparr>) \<or>
     (cc s = CC_Fire \<and> \<not> closeChan s \<and> s' = s\<lparr>closeChan := True, cc := CC_PortClose\<rparr>) \<or>
     (cc s = CC_PortClose \<and>
        s' = s\<lparr>dev := (dev s)\<lparr>closes := Suc (closes (dev s))\<rparr>,
               cc := CC_Wait (close_result (dev s))\<rparr>) \<or>
     (\<exists>err. cc s = CC_Wait err \<and> wg s = 0 \<and>
        s' = s\<lparr>cc := CC_Idle, close_log := close_log s @ [err]\<rparr>)"
  by (cases "cc s") (auto simp: Close_def Closed_def port_close_def)

lemma step_cases [consumes 1, case_names Start Call_Read Call_Write Call_Close
    Close_closed Close_check Close_fire Close_port Close_wait Port_read Port_write
    Frame Request Err_rr Err_wr Err_rw Err_ww
    Exit_read_frame Exit_read_err Exit_write_recv Exit_write_err
    Read_closed Read_frame_closed Write_closed Write_wait_closed Read_timeout Write_timeout]:
  assumes "step stop e s = Some s'"
  obtains
    "e = Call_Start" "rw s = RW_NotStarted" "ww s = WW_NotStarted"
      "s' = s\<lparr>wg := wg s + 2, rw := RW_Read, ww := WW_Recv\<rparr>"
  | "e = Call_Read" "rc s = RC_Idle" "s' = s\<lparr>rc := RC_Select\<rparr>"
  | b where "e = Call_Write b" "wc s = WC_Idle" "s' = s\<lparr>wc := WC_Select b\<rparr>"
  | "e = Call_Close" "cc s = CC_Idle" "s' = s\<lparr>cc := CC_Check\<rparr>"
  | "e = Run_Close" "cc s = CC_Check" "closeChan s"
      "s' = s\<lparr>cc := CC_Idle, close_log := close_log s @ [Some ErrClosedPort]\<rparr>"
  | "e = Run_Close" "cc s = CC_Check" "\<not> closeChan s" "s' = s\<lparr>cc := CC_Fire\<rparr>"
  | "e = Run_Close" "cc s = CC_Fire" "\<not> closeChan s"
      "s' = s\<lparr>closeChan := True, cc := CC_PortClose\<rparr>"
  | "e = Run_Close" "cc s = CC_PortClose"
      "s' = s\<lparr>dev := (dev s)\<lparr>closes := Suc (closes (dev s))\<rparr>,
              cc := CC_Wait (close_result (dev s))\<rparr>"
  | err where "e = Run_Close" "cc s = CC_Wait err" "wg s = 0"
      "s' = s\<lparr>cc := CC_Idle, close_log := close_log s @ [err]\<rparr>"
  | f err p' where "e = IO ReadRoutine" "rw s = RW_Read"
      "read_frame stop (dev s) = Some (f, err, p')" "s' = s\<lparr>rw := RW_SendFrame f err, dev := p'\<rparr>"
  | b err p' where "e = IO WriteRoutine" "ww s = WW_Write b"
      "port_write b (dev s) = Some (err, p')" "s' = s\<lparr>ww := WW_SendErr err, dev := p'\<rparr>"
  | f err where "e = Sync_rdChan f" "rw s = RW_SendFrame f err" "rc s = RC_Select"
      "s' = s\<lparr>rw := RW_SendErr err, rc := RC_WaitErr f\<rparr>"
  | b where "e = Sync_wrChan b" "wc s = WC_Select b" "ww s = WW_Recv"
      "s' = s\<lparr>wc := WC_WaitErr, ww := WW_Write b\<rparr>"
  | b err where "e = Sync_errChan ReadRoutine ReadCall err" "rw s = RW_SendErr err"
      "rc s = RC_WaitErr b"
      "s' = s\<lparr>rw := RW_Read, rc := RC_Idle, read_log := read_log s @ [(b, err)]\<rparr>"
  | b err where "e = Sync_errChan WriteRoutine ReadCall err" "ww s = WW_SendErr err"
      "rc s = RC_WaitErr b"
      "s' = s\<lparr>ww := WW_Recv, rc := RC_Idle, read_log := read_log s @ [(b, err)]\<rparr>"
  | err where "e = Sync_errChan ReadRoutine WriteCall err" "rw s = RW_SendErr err"
      "wc s = WC_WaitErr"
      "s' = s\<lparr>rw := RW_Read, wc := WC_Idle, write_log := write_log s @ [err]\<rparr>"
  | err where "e = Sync_errChan WriteRoutine WriteCall err" "ww s = WW_SendErr err"
      "wc s = WC_WaitErr"
      "s' = s\<lparr>ww := WW_Recv, wc := WC_Idle, write_log := write_log s @ [err]\<rparr>"
  | f err where "e = Closed_routine ReadRoutine" "closeChan s" "rw s = RW_SendFrame f err"
      "s' = s\<lparr>rw := RW_Exited, wg := wg s - 1\<rparr>"
  | err where "e = Closed_routine ReadRoutine" "closeChan s" "rw s = RW_SendErr err"
      "s' = s\<lparr>rw := RW_Exited, wg := wg s - 1\<rparr>"
  | "e = Closed_routine WriteRoutine" "closeChan s" "ww s = WW_Recv"
      "s' = s\<lparr>ww := WW_Exited, wg := wg s - 1\<rparr>"
  | err where "e = Closed_routine WriteRoutine" "closeChan s" "ww s = WW_SendErr err"
      "s' = s\<lparr>ww := WW_Exited, wg := wg s - 1\<rparr>"
  | "e = Closed_caller ReadCall" "closeChan s" "rc s = RC_Select"
      "s' = s\<lparr>rc := RC_Idle, read_log := read_log s @ [([], Some ErrClosedPort)]\<rparr>"
  | b where "e = Closed_caller ReadCall" "closeChan s" "rc s = RC_WaitErr b"
      "s' = s\<lparr>rc := RC_Idle, read_log := read_log s @ [(b, None)]\<rparr>"
  | b where "e = Closed_caller WriteCall" "closeChan s" "wc s = WC_Select b"
      "s' = s\<lparr>wc := WC_Idle, write_log := write_log s @ [Some ErrClosedPort]\<rparr>"
  | "e = Closed_caller WriteCall" "closeChan s" "wc s = WC_WaitErr"
      "s' = s\<lparr>wc := WC_Idle, write_log := write_log s @ [Some ErrClosedPort]\<rparr>"
  | "e = Timer ReadCall" "rc s = RC_Select"
      "s' = s\<lparr>rc := RC_Idle,
              read_log := read_log s @ [([], Some (ReadTimeoutError (ReadTimeout (conn s))))]\<rparr>"
  | b where "e = Timer WriteCall" "wc s = WC_Select b"
      "s' = s\<lparr>wc := WC_Idle,
              write_log := write_log s @ [Some (WriteTimeoutError (WriteTimeout (conn s)))]\<rparr>"
proof (cases e)
  case Call_Start
  with assms that(1) show ?thesis by (auto simp: Start_def split: if_splits)
next
  case Call_Read
  with assms that(2) show ?thesis by (auto split: if_splits)
next
  case (Call_Write b)
  with assms that(3) show ?thesis by (auto split: if_splits)
next
  case Call_Close
  with assms that(4) show ?thesis by (auto split: if_splits)
next
  case Run_Close
  with assms have "Close s = Some s'" by simp
  with Run_Close that(5-9) show ?thesis unfolding Close_Some by blast
next
  case (IO r)
  show ?thesis
  proof (cases r)
    case ReadRoutine
    with IO assms that(10) show ?thesis
      by (auto simp: readRoutine_io_def split: option.splits if_splits)
  next
    case WriteRoutine
    with IO assms that(11) show ?thesis
      by (auto simp: writeRoutine_io_def split: option.splits ww_pc.splits)
  qed
next
  case (Sync_rdChan f)
  with assms obtain t where "routine_case ReadRoutine (Case_rdChan f) s = Some t"
    and "caller_case ReadCall (Case_rdChan f) t = Some s'"
    by (auto simp del: routine_case.simps caller_case.simps split: option.splits)
  then have "\<exists>err. rw s = RW_SendFrame f err \<and> rc s = RC_Select \<and>
      s' = s\<lparr>rw := RW_SendErr err, rc := RC_WaitErr f\<rparr>"
    by (auto simp: routine_case_Read_Some caller_case_Read_Some simp del: routine_case.simps caller_case.simps)
  with Sync_rdChan that(12) show ?thesis by blast
next
  case (Sync_wrChan b)
  with assms obtain t where "caller_case WriteCall (Case_wrChan b) s = Some t"
    and "routine_case WriteRoutine (Case_wrChan b) t = Some s'"
    by (auto simp del: routine_case.simps caller_case.simps split: option.splits)
  then have "wc s = WC_Select b \<and> ww s = WW_Recv \<and> s' = s\<lparr>wc := WC_WaitErr, ww := WW_Write b\<rparr>"
    by (auto simp: routine_case_Write_Some caller_case_Write_Some simp del: routine_case.simps caller_case.simps)
  with Sync_wrChan that(13) show ?thesis by blast
next
  case (Sync_errChan r k err)
  with assms obtain t where rt: "routine_case r (Case_errChan err) s = Some t"
    and ct: "caller_case k (Case_errChan err) t = Some s'"
    by (auto simp del: routine_case.simps caller_case.simps split: option.splits)
  show ?thesis
  proof (cases r; cases k)
    assume "r = ReadRoutine" "k = ReadCall"
    moreover with rt ct have "\<exists>b. rw s = RW_SendErr err \<and> rc s = RC_WaitErr b \<and>
      s' = s\<lparr>rw := RW_Read, rc := RC_Idle, read_log := read_log s @ [(b, err)]\<rparr>"
      by (auto simp: routine_case_Read_Some caller_case_Read_Some simp del: routine_case.simps caller_case.simps)
    ultimately show ?thesis using Sync_errChan that(14) by blast
  next
    assume "r = WriteRoutine" "k = ReadCall"
    moreover with rt ct have "\<exists>b. ww s = WW_SendErr err \<and> rc s = RC_WaitErr b \<and>
      s' = s\<lparr>ww := WW_Recv, rc := RC_Idle, read_log := read_log s @ [(b, err)]\<rparr>"
      by (auto simp: routine_case_Write_Some caller_case_Read_Some simp del: routine_case.simps caller_case.simps)
    ultimately show ?thesis using Sync_errChan that(15) by blast
  next
    assume "r = ReadRoutine" "k = WriteCall"
    moreover with rt ct have "rw s = RW_SendErr err \<and> wc s = WC_WaitErr \<and>
      s' = s\<lparr>rw := RW_Read, wc := WC_Idle, write_log := write_log s @ [err]\<rparr>"
      by (auto simp: routine_case_Read_Some caller_case_Write_Some simp del: routine_case.simps caller_case.simps)
    ultimately show ?thesis using Sync_errChan that(16) by blast
  next
    assume "r = WriteRoutine" "k = WriteCall"
    moreover with rt ct have "ww s = WW_SendErr err \<and> wc s = WC_WaitErr \<and>
      s' = s\<lparr>ww := WW_Recv, wc := WC_Idle, write_log := write_log s @ [err]\<rparr>"
      by (auto simp: routine_case_Write_Some caller_case_Write_Some simp del: routine_case.simps caller_case.simps)
    ultimately show ?thesis using Sync_errChan that(17) by blast
  qed
next
  case (Closed_routine r)
  with assms have c: "closeChan s" and rt: "routine_case r Case_Closed s = Some s'"
    by (auto simp: Closed_def simp del: routine_case.simps split: if_splits)
  show ?thesis
  proof (cases r)
    case ReadRoutine
    with rt have "(\<exists>f err. rw s = RW_SendFrame f err \<and> s' = s\<lparr>rw := RW_Exited, wg := wg s - 1\<rparr>) \<or>
        (\<exists>err. rw s = RW_SendErr err \<and> s' = s\<lparr>rw := RW_Exited, wg := wg s - 1\<rparr>)"
      by (auto simp: routine_case_Read_Some simp del: routine_case.simps caller_case.simps)
    with ReadRoutine Closed_routine c that(18,19) show ?thesis by blast
  next
    case WriteRoutine
    with rt have "(ww s = WW_Recv \<and> s' = s\<lparr>ww := WW_Exited, wg := wg s - 1\<rparr>) \<or>
        (\<exists>err. ww s = WW_SendErr err \<and> s' = s\<lparr>ww := WW_Exited, wg := wg s - 1\<rparr>)"
      by (auto simp: routine_case_Write_Some simp del: routine_case.simps caller_case.simps)
    with WriteRoutine Closed_routine c that(20,21) show ?thesis by blast
  qed
next
  case (Closed_caller k)
  with assms have c: "closeChan s" and ct: "caller_case k Case_Closed s = Some s'"
    by (auto simp: Closed_def simp del: caller_case.simps split: if_splits)
  show ?thesis
  proof (cases k)
    case ReadCall
    with ct have "(rc s = RC_Select \<and>
          s' = s\<lparr>rc := RC_Idle, read_log := read_log s @ [([], Some ErrClosedPort)]\<rparr>) \<or>
        (\<exists>b. rc s = RC_WaitErr b \<and> s' = s\<lparr>rc := RC_Idle, read_log := read_log s @ [(b, None)]\<rparr>)"
      by (auto simp: caller_case_Read_Some simp del: routine_case.simps caller_case.simps)
    with ReadCall Closed_caller c that(22,23) show ?thesis by blast
  next
    case WriteCall
    with ct have "(\<exists>b. wc s = WC_Select b \<and>
          s' = s\<lparr>wc := WC_Idle, write_log := write_log s @ [Some ErrClosedPort]\<rparr>) \<or>
        (wc s = WC_WaitErr \<and> s' = s\<lparr>wc := WC_Idle, write_log := write_log s @ [Some ErrClosedPort]\<rparr>)"
      by (auto simp: caller_case_Write_Some simp del: routine_case.simps caller_case.simps)
    with WriteCall Closed_caller c that(24,25) show ?thesis by blast
  qed
next
  case (Timer k)
  with assms have ct: "caller_case k Case_After s = Some s'"
    by (auto simp del: caller_case.simps)
  show ?thesis
  proof (cases k)
    case ReadCall
    with ct have "rc s = RC_Select \<and>
          s' = s\<lparr>rc := RC_Idle,
              read_log := read_log s @ [([], Some (ReadTimeoutError (ReadTimeout (conn s))))]\<rparr>"
      by (auto simp: caller_case_Read_Some simp del: routine_case.simps caller_case.simps)
    with ReadCall Timer that(26) show ?thesis by blast
  next
    case WriteCall
    with ct have "\<exists>b. wc s = WC_Select b \<and>
          s' = s\<lparr>wc := WC_Idle,
              write_log := write_log s @ [Some (WriteTimeoutError (WriteTimeout (conn s)))]\<rparr>"
      by (auto simp: caller_case_Write_Some simp del: routine_case.simps caller_case.simps)
    with WriteCall Timer that(27) show ?thesis by blast
  qed
qed

subsection \<open>Framing\<close>

lemma arrivals_simps [simp]:
  "arrivals [] = []" "arrivals (c # cs) = (c, None) # arrivals cs"
  by (simp_all add: arrivals_def)

lemma strip_stop_length: "length (strip_stop stop b) \<le> length b"
  by (simp add: strip_stop_def)

lemma strip_stop_snoc [simp]: "strip_stop stop (F @ [stop]) = F"
  by (simp add: strip_stop_def)

lemma read_loop_length:
  "read_loop stop b j err p = Some (b', err', p') \<Longrightarrow> length b \<le> 32 \<Longrightarrow> length b' \<le> 32"
proof (induction stop b j err p rule: read_loop.induct)
  case (1 stop b j err p)
  show ?case
  proof (cases "err = None \<and> j > 0 \<and> b ! (length b - 1) \<noteq> stop")
    case True
    with "1.prems"(1) obtain d e p1 where
      pr: "port_read (32 - length b) p = Some (d, e, p1)" and
      rl: "read_loop stop (b @ d) (length d) e p1 = Some (b', err', p')"
      by (subst (asm) read_loop.simps) (auto split: option.splits)
    from pr have "length d \<le> 32 - length b" by (rule port_read_length)
    with "1.prems"(2) have "length (b @ d) \<le> 32" by simp
    with "1.IH" True pr rl show ?thesis by blast
  next
    case False
    with "1.prems" show ?thesis by (subst (asm) read_loop.simps) auto
  qed
qed

lemma read_frame_length:
  assumes "read_frame stop p = Some (f, err, p')"
  shows "length f \<le> 32"
proof -
  from assms obtain d e p1 b where
    pr: "port_read 32 p = Some (d, e, p1)" and
    rl: "read_loop stop d (length d) e p1 = Some (b, err, p')" and
    f: "f = strip_stop stop b"
    by (auto simp: read_frame_def split: option.splits)
  from pr have "length d \<le> 32" by (rule port_read_length)
  with rl have "length b \<le> 32" by (rule read_loop_length)
  with f strip_stop_length [of stop b] show ?thesis by simp
qed

lemma last_of_prefix:
  assumes "b @ ys = G @ zs" and "length b \<le> length G" and "b \<noteq> []"
  shows "b ! (length b - 1) \<in> set G"
proof -
  from assms(1,2) have "b = take (length b) G"
    by (metis append_eq_conv_conj take_append diff_is_0_eq' take_0 append_Nil2)
  moreover from assms(3) have "length b - 1 < length b" by (cases b) simp_all
  ultimately have "b ! (length b - 1) = G ! (length b - 1)"
    by (metis nth_take)
  with assms(2) \<open>length b - 1 < length b\<close> show ?thesis by simp
qed

lemma read_loop_stop:
  assumes "b @ concat cs = F @ [stop]" and "stop \<notin> set F" and "length F < 32"
    and "\<forall>c\<in>set cs. c \<noteq> []" and "b \<noteq> []" and "0 < j"
  shows "read_loop stop b j None (p\<lparr>rd_script := arrivals cs @ rest\<rparr>) =
           Some (F @ [stop], None, p\<lparr>rd_script := rest\<rparr>)"
  using assms
proof (induction cs arbitrary: b j)
  case Nil
  then have "b = F @ [stop]" by simp
  then show ?case by (subst read_loop.simps) simp
next
  case (Cons c cs)
  have c: "c \<noteq> []" using Cons.prems(4) by simp
  from Cons.prems(1) have len: "length b + length c + length (concat cs) = length F + 1"
    by (metis length_append concat.simps(2) add.assoc length_Cons list.size(3) One_nat_def add.commute plus_1_eq_Suc)
  with c have lb: "length b \<le> length F" by (cases c) simp_all
  from Cons.prems(1) lb Cons.prems(5) have "b ! (length b - 1) \<in> set F"
    by (rule last_of_prefix)
  with Cons.prems(2) have ns: "b ! (length b - 1) \<noteq> stop" by auto
  from len Cons.prems(3) have lc: "length c \<le> 32 - length b" by simp
  then have pr: "port_read (32 - length b) (p\<lparr>rd_script := arrivals (c # cs) @ rest\<rparr>) =
      Some (c, None, p\<lparr>rd_script := arrivals cs @ rest\<rparr>)"
    by (simp add: port_read_def)
  have "read_loop stop (b @ c) (length c) None (p\<lparr>rd_script := arrivals cs @ rest\<rparr>) =
      Some (F @ [stop], None, p\<lparr>rd_script := rest\<rparr>)"
    using Cons.prems c by (intro Cons.IH) simp_all
  with pr ns Cons.prems(6) show ?case by (subst read_loop.simps) simp
qed

lemma read_frame_stop:
  assumes "concat cs = F @ [stop]" and "stop \<notin> set F" and "length F < 32"
    and "\<forall>c\<in>set cs. c \<noteq> []"
  shows "read_frame stop (p\<lparr>rd_script := arrivals cs @ rest\<rparr>) =
           Some (F, None, p\<lparr>rd_script := rest\<rparr>)"
proof (cases cs)
  case Nil
  with assms(1) show ?thesis by simp
next
  case (Cons c cs')
  with assms(4) have c: "c \<noteq> []" by simp
  from assms(1) Cons have "length c + length (concat cs') = length F + 1"
    by (metis length_append concat.simps(2) length_Cons list.size(3) One_nat_def add.commute plus_1_eq_Suc)
  with assms(3) have lc: "length c \<le> 32" by simp
  then have pr: "port_read 32 (p\<lparr>rd_script := arrivals cs @ rest\<rparr>) =
      Some (c, None, p\<lparr>rd_script := arrivals cs' @ rest\<rparr>)"
    by (simp add: port_read_def Cons)
  have "read_loop stop c (length c) None (p\<lparr>rd_script := arrivals cs' @ rest\<rparr>) =
      Some (F @ [stop], None, p\<lparr>rd_script := rest\<rparr>)"
    using assms c Cons by (intro read_loop_stop) simp_all
  with pr show ?thesis by (simp add: read_frame_def)
qed

lemma read_loop_at_full:
  assumes "length G = 32" and "stop \<notin> set G" and "script \<noteq> []" and "fst (hd script) \<noteq> []"
  shows "read_loop stop G j None (p\<lparr>rd_script := script\<rparr>) = Some (G, None, p\<lparr>rd_script := script\<rparr>)"
proof (cases "0 < j")
  case False
  then show ?thesis by (subst read_loop.simps) simp
next
  case True
  from assms(1) have "G \<noteq> []" by auto
  with assms(1) have "G ! (length G - 1) \<in> set G" by simp
  with assms(2) have ns: "G ! (length G - 1) \<noteq> stop" by auto
  from assms(3,4) obtain d e rest where sc: "script = (d, e) # rest" and d: "d \<noteq> []"
    by (cases script) auto
  then have pr: "port_read (32 - length G) (p\<lparr>rd_script := script\<rparr>) =
      Some ([], None, p\<lparr>rd_script := script\<rparr>)"
    using assms(1) by (simp add: port_read_def)
  have "read_loop stop (G @ []) (length ([]::byte list)) None (p\<lparr>rd_script := script\<rparr>) =
      Some (G, None, p\<lparr>rd_script := script\<rparr>)"
    by (subst read_loop.simps) simp
  with pr ns True show ?thesis by (subst read_loop.simps) simp
qed

lemma read_loop_full:
  assumes "b @ concat cs = G @ zs" and "length G = 32" and "zs \<noteq> []" and "stop \<notin> set G"
    and "\<forall>c\<in>set cs. c \<noteq> []" and "b \<noteq> []" and "length b \<le> 32" and "0 < j"
  shows "\<exists>cs'. read_loop stop b j None (p\<lparr>rd_script := arrivals cs @ rest\<rparr>) =
           Some (G, None, p\<lparr>rd_script := arrivals cs' @ rest\<rparr>) \<and> concat cs' = zs \<and>
           (\<forall>c\<in>set cs'. c \<noteq> [])"
  using assms
proof (induction cs arbitrary: b j)
  case Nil
  then have "length b = length G + length zs" by (metis append_Nil2 concat.simps(1) length_append)
  with Nil.prems(2,3,7) show ?case by (cases zs) simp_all
next
  case (Cons c cs)
  have c: "c \<noteq> []" using Cons.prems(5) by simp
  from Cons.prems(1,2,7) Cons.prems(6) have "b ! (length b - 1) \<in> set G"
    by (intro last_of_prefix [where ys = "concat (c # cs)" and zs = zs]) simp_all
  with Cons.prems(4) have ns: "b ! (length b - 1) \<noteq> stop" by auto
  show ?case
  proof (cases "length c \<le> 32 - length b")
    case True
    then have pr: "port_read (32 - length b) (p\<lparr>rd_script := arrivals (c # cs) @ rest\<rparr>) =
        Some (c, None, p\<lparr>rd_script := arrivals cs @ rest\<rparr>)"
      by (simp add: port_read_def)
    have "\<exists>cs'. read_loop stop (b @ c) (length c) None (p\<lparr>rd_script := arrivals cs @ rest\<rparr>) =
        Some (G, None, p\<lparr>rd_script := arrivals cs' @ rest\<rparr>) \<and> concat cs' = zs \<and>
        (\<forall>c\<in>set cs'. c \<noteq> [])"
      using Cons.prems c True by (intro Cons.IH) simp_all
    with pr ns Cons.prems(8) show ?thesis by (subst read_loop.simps) simp
  next
    case False
    let ?n = "32 - length b"
    let ?cs' = "drop ?n c # cs"
    from False have dn: "drop ?n c \<noteq> []" by simp
    from False have pr: "port_read ?n (p\<lparr>rd_script := arrivals (c # cs) @ rest\<rparr>) =
        Some (take ?n c, None, p\<lparr>rd_script := arrivals ?cs' @ rest\<rparr>)"
      by (simp add: port_read_def)
    from False Cons.prems(7) have l32: "length (b @ take ?n c) = 32" by simp
    have "(b @ take ?n c) @ (drop ?n c @ concat cs) = G @ zs"
      using Cons.prems(1) by (metis append_assoc append_take_drop_id concat.simps(2))
    with l32 Cons.prems(2) have G: "b @ take ?n c = G" and zs: "drop ?n c @ concat cs = zs"
      by (metis append_eq_append_conv)+
    have "read_loop stop G (length (take ?n c)) None (p\<lparr>rd_script := arrivals ?cs' @ rest\<rparr>) =
        Some (G, None, p\<lparr>rd_script := arrivals ?cs' @ rest\<rparr>)"
      using Cons.prems(2,4) dn by (intro read_loop_at_full) simp_all
    with pr ns Cons.prems(8) G have
      "read_loop stop b j None (p\<lparr>rd_script := arrivals (c # cs) @ rest\<rparr>) =
        Some (G, None, p\<lparr>rd_script := arrivals ?cs' @ rest\<rparr>)"
      by (subst read_loop.simps) simp
    moreover have "concat ?cs' = zs" using zs by simp
    moreover have "\<forall>c\<in>set ?cs'. c \<noteq> []" using dn Cons.prems(5) by simp
    ultimately show ?thesis by blast
  qed
qed

lemma read_frame_full:
  assumes "concat cs = G @ zs" and "length G = 32" and "zs \<noteq> []" and "stop \<notin> set G"
    and "\<forall>c\<in>set cs. c \<noteq> []"
  shows "\<exists>cs'. read_frame stop (p\<lparr>rd_script := arrivals cs @ rest\<rparr>) =
           Some (G, None, p\<lparr>rd_script := arrivals cs' @ rest\<rparr>) \<and> concat cs' = zs \<and>
           (\<forall>c\<in>set cs'. c \<noteq> [])"
proof (cases cs)
  case Nil
  with assms(1,3) show ?thesis by simp
next
  case (Cons c cs1)
  with assms(5) have c: "c \<noteq> []" by simp
  from assms(2) have G0: "G \<noteq> []" by auto
  with assms(2) have "G ! (length G - 1) \<in> set G" by simp
  with assms(4) have nsG: "G ! (length G - 1) \<noteq> stop" by auto
  have strip: "strip_stop stop G = G" using nsG by (simp add: strip_stop_def)
  show ?thesis
  proof (cases "length c \<le> 32")
    case True
    then have pr: "port_read 32 (p\<lparr>rd_script := arrivals cs @ rest\<rparr>) =
        Some (c, None, p\<lparr>rd_script := arrivals cs1 @ rest\<rparr>)"
      by (simp add: port_read_def Cons)
    have "\<exists>cs'. read_loop stop c (length c) None (p\<lparr>rd_script := arrivals cs1 @ rest\<rparr>) =
        Some (G, None, p\<lparr>rd_script := arrivals cs' @ rest\<rparr>) \<and> concat cs' = zs \<and>
        (\<forall>c\<in>set cs'. c \<noteq> [])"
      using assms c Cons True by (intro read_loop_full) simp_all
    with pr strip show ?thesis by (auto simp: read_frame_def)
  next
    case False
    let ?cs' = "drop 32 c # cs1"
    from False have dn: "drop 32 c \<noteq> []" by simp
    from False have pr: "port_read 32 (p\<lparr>rd_script := arrivals cs @ rest\<rparr>) =
        Some (take 32 c, None, p\<lparr>rd_script := arrivals ?cs' @ rest\<rparr>)"
      by (simp add: port_read_def Cons)
    from False have l32: "length (take 32 c) = 32" by simp
    have "take 32 c @ (drop 32 c @ concat cs1) = G @ zs"
      using assms(1) Cons by (simp flip: append_assoc)
    with l32 assms(2) have G: "take 32 c = G" and zs: "drop 32 c @ concat cs1 = zs"
      by (metis append_eq_append_conv)+
    have "read_loop stop G (length (take 32 c)) None (p\<lparr>rd_script := arrivals ?cs' @ rest\<rparr>) =
        Some (G, None, p\<lparr>rd_script := arrivals ?cs' @ rest\<rparr>)"
      using assms(2,4) dn by (intro read_loop_at_full) simp_all
    with pr G strip have
      "read_frame stop (p\<lparr>rd_script := arrivals cs @ rest\<rparr>) =
        Some (G, None, p\<lparr>rd_script := arrivals ?cs' @ rest\<rparr>)"
      by (simp add: read_frame_def)
    moreover have "concat ?cs' = zs" using zs by simp
    moreover have "\<forall>c\<in>set ?cs'. c \<noteq> []" using dn assms(5) Cons by simp
    ultimately show ?thesis by blast
  qed
qed

lemma read_frame_whole:
  assumes "concat cs = F @ [stop]" and "stop \<notin> set F" and "length F \<le> 32"
    and "\<forall>c\<in>set cs. c \<noteq> []"
  shows "\<exists>cs'. read_frame stop (p\<lparr>rd_script := arrivals cs @ rest\<rparr>) =
           Some (F, None, p\<lparr>rd_script := arrivals cs' @ rest\<rparr>)"
proof (cases "length F < 32")
  case True
  with assms have "read_frame stop (p\<lparr>rd_script := arrivals cs @ rest\<rparr>) =
           Some (F, None, p\<lparr>rd_script := arrivals [] @ rest\<rparr>)"
    by (simp add: read_frame_stop)
  then show ?thesis by blast
next
  case False
  with assms(3) have "length F = 32" by simp
  with assms read_frame_full [where cs = cs and G = F and zs = "[stop]" and stop = stop
      and p = p and rest = rest]
  show ?thesis by auto
qed

subsection \<open>The size of a frame\<close>

lemma frames_bounded_new: "frames_bounded (new_transport sc p)"
  by (simp add: frames_bounded_def new_transport_def)

lemma frames_bounded_step:
  assumes "step stop e s = Some s'" and "frames_bounded s"
  shows "frames_bounded s'"
  using assms
proof (cases rule: step_cases)
  case (Port_read f err p')
  with assms(2) read_frame_length [of stop "dev s" f err p'] show ?thesis
    by (simp add: frames_bounded_def)
qed (auto simp: frames_bounded_def)



lemma frames_bounded_run:
  assumes "run stop es (new_transport sc p) = Some s"
  shows "frames_bounded s"
proof (rule run_invariant [where I = frames_bounded, OF _ frames_bounded_new assms])
  fix e and t t' :: "'a transport"
  assume "frames_bounded t" and "step stop e t = Some t'"
  then show "frames_bounded t'" by (simp add: frames_bounded_step)
qed

text \<open>
  Claim C9. Whatever the port delivers and in whatever order the steps happen, no frame
  that \<^verbatim>\<open>readRoutine\<close> has ready, no frame that \<^verbatim>\<open>Read\<close> holds and no frame that
  \<^verbatim>\<open>Read\<close> has returned is longer than 32 bytes. And when 32 bytes without the stop
  byte arrive, in pieces of any size, before more bytes do, the frame made is those 32
  bytes and the bytes after them stay pending for the frames to come.
\<close>

theorem frames_at_most_32:
  "(\<forall>es sc p s. run stop es (new_transport sc p) = Some s \<longrightarrow>
      (\<forall>r\<in>set (read_log s). length (fst r) \<le> 32) \<and>
      (\<forall>f err. rw s = RW_SendFrame f err \<longrightarrow> length f \<le> 32) \<and>
      (\<forall>b. rc s = RC_WaitErr b \<longrightarrow> length b \<le> 32))
   \<and> (\<forall>cs G zs p rest. concat cs = G @ zs \<and> length G = 32 \<and> zs \<noteq> [] \<and> stop \<notin> set G \<and>
         (\<forall>c\<in>set cs. c \<noteq> []) \<longrightarrow>
         (\<exists>cs'. read_frame stop (p\<lparr>rd_script := arrivals cs @ rest\<rparr>) =
                   Some (G, None, p\<lparr>rd_script := arrivals cs' @ rest\<rparr>) \<and> concat cs' = zs))"
proof (intro conjI allI impI)
  fix es and sc :: "'a SerialConnection" and p s
  assume "run stop es (new_transport sc p) = Some s"
  then have fb: "frames_bounded s" by (rule frames_bounded_run)
  from fb show "\<forall>r\<in>set (read_log s). length (fst r) \<le> 32"
    by (simp add: frames_bounded_def list_all_iff)
  fix f err assume "rw s = RW_SendFrame f err"
  with fb show "length f \<le> 32" by (simp add: frames_bounded_def)
next
  fix es and sc :: "'a SerialConnection" and p s b
  assume "run stop es (new_transport sc p) = Some s"
  then have fb: "frames_bounded s" by (rule frames_bounded_run)
  assume "rc s = RC_WaitErr b"
  with fb show "length b \<le> 32" by (simp add: frames_bounded_def)
next
  fix cs G zs p rest
  assume "concat cs = G @ zs \<and> length G = 32 \<and> zs \<noteq> [] \<and> stop \<notin> set G \<and> (\<forall>c\<in>set cs. c \<noteq> [])"
  then obtain cs' where "read_frame stop (p\<lparr>rd_script := arrivals cs @ rest\<rparr>) =
      Some (G, None, p\<lparr>rd_script := arrivals cs' @ rest\<rparr>) \<and> concat cs' = zs \<and>
      (\<forall>c\<in>set cs'. c \<noteq> [])"
    using read_frame_full [where cs = cs and G = G and zs = zs and stop = stop] by blast
  then show "\<exists>cs'. read_frame stop (p\<lparr>rd_script := arrivals cs @ rest\<rparr>) =
                   Some (G, None, p\<lparr>rd_script := arrivals cs' @ rest\<rparr>) \<and> concat cs' = zs"
    by blast
qed

subsection \<open>Evaluation of the sample with the long frame\<close>

lemma replicate_explicit:
  "replicate 13 x = [x, x, x, x, x, x, x, x, x, x, x, x, x]"
  "replicate 20 x = [x, x, x, x, x, x, x, x, x, x, x, x, x, x, x, x, x, x, x, x]"
  "replicate 32 x = [x, x, x, x, x, x, x, x, x, x, x, x, x, x, x, x, x, x, x, x,
                     x, x, x, x, x, x, x, x, x, x, x, x]"
  "replicate 33 x = [x, x, x, x, x, x, x, x, x, x, x, x, x, x, x, x, x, x, x, x,
                     x, x, x, x, x, x, x, x, x, x, x, x, x]"
  by (simp_all add: numeral_eq_Suc)

lemma long_run:
  "run 10 [Call_Start, Call_Read, IO ReadRoutine, Sync_rdChan (replicate 32 65),
               Sync_errChan ReadRoutine ReadCall None, IO ReadRoutine] long_transport =
     Some (long_transport\<lparr>wg := 2, rw := RW_SendFrame [65] None, ww := WW_Recv,
            dev := long_port\<lparr>rd_script := []\<rparr>, read_log := [(replicate 32 65, None)]\<rparr>)"
  by (simp add: long_transport_def long_port_def demo_defs replicate_explicit)


theorem frames_at_most_32_witness:
  "\<exists>s. run 10 [Call_Start, Call_Read, IO ReadRoutine, Sync_rdChan (replicate 32 65),
               Sync_errChan ReadRoutine ReadCall None, IO ReadRoutine] long_transport = Some s \<and>
     read_log s = [(replicate 32 65, None)] \<and> rw s = RW_SendFrame [65] None \<and>
     list_all (\<lambda>r. length (fst r) \<le> 32) (read_log s)"
  using frames_at_most_32 [where stop = 10 and ?'a = unit] long_run
  by (simp add: long_transport_def)

subsection \<open>\<^verbatim>\<open>Read\<close> and the frame on the wire\<close>

lemma port_write_rd_script:
  "port_write b p = Some (err, p') \<Longrightarrow> rd_script p' = rd_script p"
  by (auto simp: port_write_def split: list.splits)

lemma awaiting_first_step:
  assumes "step stop e s = Some s'" and "awaiting_first cs rest F s"
    and "\<forall>g. e \<noteq> Sync_rdChan g"
    and "concat cs = F @ [stop]" and "stop \<notin> set F" and "length F \<le> 32"
    and "\<forall>c\<in>set cs. c \<noteq> []"
  shows "awaiting_first cs rest F s'"
  using assms(1)
proof (cases rule: step_cases)
  case (Port_read f err p')
  with assms(2) have "rd_script (dev s) = arrivals cs @ rest"
    by (simp add: awaiting_first_def)
  then have "dev s = (dev s)\<lparr>rd_script := arrivals cs @ rest\<rparr>" by simp
  with read_frame_whole [OF assms(4-7), where p = "dev s" and rest = rest]
  obtain cs' where "read_frame stop (dev s) = Some (F, None, (dev s)\<lparr>rd_script := arrivals cs' @ rest\<rparr>)"
    by auto
  with Port_read show ?thesis by (simp add: awaiting_first_def)
next
  case (Port_write b err p')
  with assms(2) port_write_rd_script [of b "dev s" err p'] show ?thesis
    by (auto simp: awaiting_first_def)
next
  case (Frame f err)
  with assms(3) show ?thesis by simp
qed (use assms(2) in \<open>auto simp: awaiting_first_def\<close>)

lemma awaiting_first_run:
  assumes "run stop es s = Some s'" and "awaiting_first cs rest F s"
    and "\<forall>g. Sync_rdChan g \<notin> set es"
    and "concat cs = F @ [stop]" and "stop \<notin> set F" and "length F \<le> 32"
    and "\<forall>c\<in>set cs. c \<noteq> []"
  shows "awaiting_first cs rest F s'"
proof (rule run_invariant_on [where I = "awaiting_first cs rest F" and E = "{e. \<forall>g. e \<noteq> Sync_rdChan g}",
      OF _ assms(2) _ assms(1)])
  fix e and t t' :: "'a transport"
  assume "awaiting_first cs rest F t" and "e \<in> {e. \<forall>g. e \<noteq> Sync_rdChan g}"
    and "step stop e t = Some t'"
  then show "awaiting_first cs rest F t'"
    using awaiting_first_step [OF _ _ _ assms(4-7)] by simp
next
  show "set es \<subseteq> {e. \<forall>g. e \<noteq> Sync_rdChan g}" using assms(3) by auto
qed

lemma Read_holding_returns:
  assumes "step stop e s = Some s'" and "rc s = RC_WaitErr F" and "rc s' \<noteq> RC_WaitErr F"
  shows "\<exists>err. read_log s' = read_log s @ [(F, err)]"
  using assms(1)
  by (cases rule: step_cases) (use assms(2,3) in auto)

text \<open>
  Claim C1, amended. Let the port deliver the bytes of \<open>F\<close> and then the stop byte, in
  pieces of any sizes but none empty, where \<open>F\<close> holds no stop byte and at most 32
  bytes. Then on a new connection the run in which \<^verbatim>\<open>Start\<close> and \<^verbatim>\<open>Read\<close> are called,
  \<^verbatim>\<open>readRoutine\<close> reads, and the frame and the error pass to \<^verbatim>\<open>Read\<close>, is possible and
  \<^verbatim>\<open>Read\<close> returns \<open>F\<close> with a \<^verbatim>\<open>nil\<close> error. In every run, whatever else happens, the
  first frame that passes over \<^verbatim>\<open>rdChan\<close> is \<open>F\<close>; and a \<^verbatim>\<open>Read\<close> that holds \<open>F\<close>
  returns \<open>F\<close>, however it ends.
\<close>

theorem Read_returns_frame:
  fixes sc :: "'p SerialConnection"
  assumes "concat cs = F @ [stop]" and "stop \<notin> set F" and "length F \<le> 32"
    and "\<forall>c\<in>set cs. c \<noteq> []" and "rd_script p = arrivals cs @ rest"
  shows "(\<exists>s. run stop [Call_Start, Call_Read, IO ReadRoutine, Sync_rdChan F,
                       Sync_errChan ReadRoutine ReadCall None] (new_transport sc p) = Some s \<and>
              read_log s = [(F, None)])
       \<and> (\<forall>es f s. run stop (es @ [Sync_rdChan f]) (new_transport sc p) = Some s \<and>
              (\<forall>g. Sync_rdChan g \<notin> set es) \<longrightarrow> f = F \<and> rc s = RC_WaitErr F)
       \<and> (\<forall>e s' (s :: 'p transport).
              step stop e s = Some s' \<and> rc s = RC_WaitErr F \<and> rc s' \<noteq> RC_WaitErr F \<longrightarrow>
              (\<exists>err. read_log s' = read_log s @ [(F, err)]))"
proof -
  from assms(5) have "p = p\<lparr>rd_script := arrivals cs @ rest\<rparr>" by simp
  with read_frame_whole [OF assms(1-4), where p = p and rest = rest]
  obtain cs' where "read_frame stop p = Some (F, None, p\<lparr>rd_script := arrivals cs' @ rest\<rparr>)"
    by auto
  then have a: "\<exists>s. run stop [Call_Start, Call_Read, IO ReadRoutine, Sync_rdChan F,
                       Sync_errChan ReadRoutine ReadCall None] (new_transport sc p) = Some s \<and>
              read_log s = [(F, None)]"
    by (simp add: new_transport_def Start_def readRoutine_io_def)
  have b: "f = F \<and> rc s = RC_WaitErr F"
    if r: "run stop (es @ [Sync_rdChan f]) (new_transport sc p) = Some s"
      and n: "\<forall>g. Sync_rdChan g \<notin> set es"
    for es f and s :: "'p transport"
  proof -
    from r obtain t where t: "run stop es (new_transport sc p) = Some t"
      and st: "step stop (Sync_rdChan f) t = Some s"
      by (auto simp: run_append split: option.splits)
    have "awaiting_first cs rest F (new_transport sc p)"
      using assms(5) by (simp add: awaiting_first_def new_transport_def)
    with t n have inv: "awaiting_first cs rest F t"
      using awaiting_first_run [OF _ _ _ assms(1-4)] by blast
    from st show ?thesis
      by (cases rule: step_cases) (use inv in \<open>auto simp: awaiting_first_def\<close>)
  qed
  have c: "\<exists>err. read_log s' = read_log s @ [(F, err)]"
    if "step stop e s = Some s'" and "rc s = RC_WaitErr F" and "rc s' \<noteq> RC_WaitErr F"
    for e and s s' :: "'p transport"
    using that by (rule Read_holding_returns)
  from a b c show ?thesis by blast
qed

theorem Read_returns_frame_witness:
  "\<exists>s. run 10 [Call_Start, Call_Read, IO ReadRoutine, Sync_rdChan [1, 2, 3],
               Sync_errChan ReadRoutine ReadCall None] demo_transport = Some s \<and>
     read_log s = [([1, 2, 3], None)] \<and>
     concat [[1, 2], [3, 10]] = [1, 2, 3] @ [10 :: byte]"
proof -
  have h1: "concat [[1, 2], [3, 10]] = [1, 2, 3] @ [10 :: byte]" by simp
  have h2: "(10 :: byte) \<notin> set [1, 2, 3]" by simp
  have h3: "length [1, 2, 3 :: byte] \<le> 32" by simp
  have h4: "\<forall>c\<in>set [[1, 2], [3, 10 :: byte]]. c \<noteq> []" by simp
  have h5: "rd_script demo_port = arrivals [[1, 2], [3, 10]] @ []" by (simp add: demo_port_def)
  from Read_returns_frame [OF h1 h2 h3 h4 h5, of "NewSerial () DefaultSerialConfig ''/dev/ttyUSB0'' False"]
  show ?thesis by (simp add: demo_defs)
qed

text \<open>
  Claim C1, as stated, fails for a frame of 33 bytes: \<^verbatim>\<open>Read\<close> returns its first 32
  bytes, and in no run does any \<^verbatim>\<open>Read\<close> return the 33 bytes. It also fails when a
  physical read returns no byte and no error before the stop byte has come: the loop
  ends there and \<^verbatim>\<open>Read\<close> returns the bytes read so far.
\<close>

theorem Read_long_frame_cut:
  "concat [replicate 20 65, replicate 13 65 @ [10]] = replicate 33 65 @ [10 :: byte] \<and>
   (10 :: byte) \<notin> set (replicate 33 65) \<and>
   rd_script long_port = arrivals [replicate 20 65, replicate 13 65 @ [10]] \<and>
   (\<exists>s. run 10 [Call_Start, Call_Read, IO ReadRoutine, Sync_rdChan (replicate 32 65),
                Sync_errChan ReadRoutine ReadCall None] long_transport = Some s \<and>
        read_log s = [(replicate 32 65, None)]) \<and>
   \<not> (\<exists>es s err. run 10 es long_transport = Some s \<and> (replicate 33 65, err) \<in> set (read_log s)) \<and>
   rd_script gap_port = arrivals [[1, 2], [], [3, 10]] \<and>
   (\<exists>s. run 10 [Call_Start, Call_Read, IO ReadRoutine, Sync_rdChan [1, 2],
                Sync_errChan ReadRoutine ReadCall None] gap_transport = Some s \<and>
        read_log s = [([1, 2], None)])"
proof -
  have a: "concat [replicate 20 65, replicate 13 65 @ [10]] = replicate 33 65 @ [10 :: byte]"
    by (simp add: replicate_explicit)
  have b: "(10 :: byte) \<notin> set (replicate 33 65)" by simp
  have c: "rd_script long_port = arrivals [replicate 20 65, replicate 13 65 @ [10]]"
    by (simp add: long_port_def)
  have d: "\<exists>s. run 10 [Call_Start, Call_Read, IO ReadRoutine, Sync_rdChan (replicate 32 65),
                Sync_errChan ReadRoutine ReadCall None] long_transport = Some s \<and>
        read_log s = [(replicate 32 65, None)]"
    by (simp add: long_transport_def long_port_def demo_defs replicate_explicit)
  have e: "\<not> (\<exists>es s err. run 10 es long_transport = Some s \<and>
      (replicate 33 65, err) \<in> set (read_log s))"
  proof
    assume "\<exists>es s err. run 10 es long_transport = Some s \<and>
      (replicate 33 65, err) \<in> set (read_log s)"
    then obtain es s err where r: "run 10 es long_transport = Some s"
      and m: "(replicate 33 65, err) \<in> set (read_log s)" by blast
    from r have "frames_bounded s" unfolding long_transport_def by (rule frames_bounded_run)
    with m have "length (replicate 33 (65 :: byte)) \<le> 32"
      by (auto simp: frames_bounded_def list_all_iff)
    then show False by simp
  qed
  have f: "rd_script gap_port = arrivals [[1, 2], [], [3, 10]]"
    by (simp add: gap_port_def)
  have g: "\<exists>s. run 10 [Call_Start, Call_Read, IO ReadRoutine, Sync_rdChan [1, 2],
                Sync_errChan ReadRoutine ReadCall None] gap_transport = Some s \<and>
        read_log s = [([1, 2], None)]"
    by (simp add: gap_transport_def gap_port_def demo_defs)
  from a b c d e f g show ?thesis by (intro conjI)
qed

subsection \<open>\<^verbatim>\<open>Read\<close>\<close>

text \<open>
  Claim C7. The timer of \<^verbatim>\<open>Read\<close> can fire only while the call waits in its outer
  \<^verbatim>\<open>select\<close>, that is before any frame has been received; the call then returns the
  \<^verbatim>\<open>nil\<close> frame and the timeout error made from the \<^verbatim>\<open>ReadTimeout\<close> of the connection,
  and the text of that error is \<^verbatim>\<open>read timeout (...)\<close> around the printed duration.
\<close>

theorem Read_timeout_result:
  "step stop (Timer ReadCall) s =
     (if rc s = RC_Select
      then Some (s\<lparr>rc := RC_Idle,
                   read_log := read_log s @ [([], Some (ReadTimeoutError (ReadTimeout (conn s))))]\<rparr>)
      else None)
   \<and> error_message dstr (ReadTimeoutError (ReadTimeout (conn s))) =
       ''read timeout ('' @ dstr (ReadTimeout (conn s)) @ '')''"
  by (cases "rc s") simp_all

theorem Read_timeout_result_witness:
  "\<exists>s. run 10 [Call_Start, Call_Read] demo_transport = Some s \<and>
     map_option read_log (step 10 (Timer ReadCall) s) =
       Some [([], Some (ReadTimeoutError 1000000000))] \<and>
     error_message (\<lambda>d. ''1s'') (ReadTimeoutError (ReadTimeout (conn s))) = ''read timeout (1s)''"
  using Read_timeout_result
    [of 10 "the (run 10 [Call_Start, Call_Read] demo_transport)" "\<lambda>d. ''1s''"]
  by (simp add: demo_defs DefaultTimeout_def Second_def)










subsection \<open>\<^verbatim>\<open>Write\<close>\<close>

lemma write_stuck_step:
  assumes "write_stuck s" and "e \<noteq> Call_Close" and "step stop e s = Some s'"
  shows "write_stuck s'"
  using assms(3)
proof (cases rule: step_cases)
  case (Port_read f err p')
  with assms(1) show ?thesis
    by (simp add: write_stuck_def read_frame_def port_read_def)
next
  case (Port_write b err p')
  with assms(1) show ?thesis
    by (simp add: write_stuck_def port_write_def)
qed (use assms(1,2) in \<open>auto simp: write_stuck_def\<close>)

lemma write_stuck_run:
  assumes "write_stuck s" and "Call_Close \<notin> set es" and "run stop es s = Some s'"
  shows "write_stuck s'"
  using run_invariant_on [where I = write_stuck and E = "- {Call_Close}" and stop = stop and es = es]
    write_stuck_step assms by blast

text \<open>
  Claim C2, as stated, fails. On a port whose physical write never returns, a \<^verbatim>\<open>Write\<close>
  whose frame has been accepted waits in its inner \<^verbatim>\<open>select\<close>; the timer cannot fire
  there, and as long as \<^verbatim>\<open>Close\<close> is not called no sequence of steps makes the call
  return.
\<close>

theorem Write_waits_without_timeout:
  "\<exists>s. run 10 [Call_Start, Call_Write [7], Sync_wrChan [7]] stuck_transport = Some s \<and>
     wc s = WC_WaitErr \<and> step 10 (Timer WriteCall) s = None \<and>
     \<not> (\<exists>es s'. Call_Close \<notin> set es \<and> run 10 es s = Some s' \<and>
           (wc s' \<noteq> WC_WaitErr \<or> write_log s' \<noteq> []))"
proof -
  define s where "s = the (run 10 [Call_Start, Call_Write [7], Sync_wrChan [7]] stuck_transport)"
  have r: "run 10 [Call_Start, Call_Write [7], Sync_wrChan [7]] stuck_transport = Some s"
    by (simp add: s_def stuck_transport_def stuck_port_def new_transport_def Start_def)
  have st: "write_stuck s"
    by (simp add: s_def stuck_transport_def stuck_port_def new_transport_def Start_def write_stuck_def)
  have t: "step 10 (Timer WriteCall) s = None"
    using st by (simp add: write_stuck_def)
  have "\<not> (\<exists>es s'. Call_Close \<notin> set es \<and> run 10 es s = Some s' \<and>
           (wc s' \<noteq> WC_WaitErr \<or> write_log s' \<noteq> []))"
    using write_stuck_run [OF st] by (auto simp: write_stuck_def)
  with r st t show ?thesis by (auto simp: write_stuck_def)
qed

text \<open>
  Claim C2, amended. The timer of \<^verbatim>\<open>Write\<close> can fire only while the frame has not
  been accepted. Once it has, the call waits for an error racing the shutdown signal
  alone: it returns \<^verbatim>\<open>ErrClosedPort\<close> when it takes the case of \<^verbatim>\<open>sc.Closed()\<close>, or
  the error that passes over \<^verbatim>\<open>errChan\<close>, and in no other way.
\<close>

theorem Write_after_handoff:
  "step stop (Timer WriteCall) s =
     (case wc s of
        WC_Select b \<Rightarrow>
          Some (s\<lparr>wc := WC_Idle,
                  write_log := write_log s @ [Some (WriteTimeoutError (WriteTimeout (conn s)))]\<rparr>)
      | _ \<Rightarrow> None)
   \<and> (wc s = WC_WaitErr \<longrightarrow>
        step stop (Closed_caller WriteCall) s =
          (if Closed s
           then Some (s\<lparr>wc := WC_Idle, write_log := write_log s @ [Some ErrClosedPort]\<rparr>)
           else None)
        \<and> (\<forall>e s'. step stop e s = Some s' \<longrightarrow> wc s' \<noteq> WC_WaitErr \<longrightarrow>
              (\<exists>r err. e = Sync_errChan r WriteCall err \<and> write_log s' = write_log s @ [err])
              \<or> (e = Closed_caller WriteCall \<and> Closed s \<and>
                  write_log s' = write_log s @ [Some ErrClosedPort])))"
proof -
  have a: "step stop (Timer WriteCall) s =
     (case wc s of
        WC_Select b \<Rightarrow>
          Some (s\<lparr>wc := WC_Idle,
                  write_log := write_log s @ [Some (WriteTimeoutError (WriteTimeout (conn s)))]\<rparr>)
      | _ \<Rightarrow> None)"
    by (cases "wc s") simp_all
  have b: "step stop (Closed_caller WriteCall) s =
          (if Closed s
           then Some (s\<lparr>wc := WC_Idle, write_log := write_log s @ [Some ErrClosedPort]\<rparr>)
           else None)" if "wc s = WC_WaitErr"
    using that by simp
  have c: "(\<exists>r err. e = Sync_errChan r WriteCall err \<and> write_log s' = write_log s @ [err])
              \<or> (e = Closed_caller WriteCall \<and> Closed s \<and>
                  write_log s' = write_log s @ [Some ErrClosedPort])"
    if w: "wc s = WC_WaitErr" and st: "step stop e s = Some s'" and n: "wc s' \<noteq> WC_WaitErr"
    for e s'
    using st by (cases rule: step_cases) (use w n in \<open>auto simp: Closed_def\<close>)
  from a b c show ?thesis by blast
qed


theorem Write_after_handoff_witness:
  "\<exists>s. run 10 [Call_Start, Call_Write [7], Sync_wrChan [7], Call_Close, Run_Close, Run_Close]
          stuck_transport = Some s \<and>
     wc s = WC_WaitErr \<and> Closed s \<and> step 10 (Timer WriteCall) s = None \<and>
     map_option write_log (step 10 (Closed_caller WriteCall) s) = Some [Some ErrClosedPort]"
  using Write_after_handoff
    [of 10 "the (run 10 [Call_Start, Call_Write [7], Sync_wrChan [7], Call_Close, Run_Close,
                         Run_Close] stuck_transport)"]
  by (simp add: stuck_transport_def stuck_port_def new_transport_def Start_def Close_def Closed_def)

subsection \<open>The channels\<close>

text \<open>
  Claim C8, as stated, fails. With a \<^verbatim>\<open>Read\<close> and a \<^verbatim>\<open>Write\<close> in progress, the error of
  the failed physical write goes to \<^verbatim>\<open>Read\<close>, which returns it with a frame that was
  read without error, and the \<^verbatim>\<open>nil\<close> error of the physical read goes to \<^verbatim>\<open>Write\<close>,
  which reports success.
\<close>

theorem errChan_crosses_directions:
  "\<exists>s. run 10 [Call_Start, Call_Read, IO ReadRoutine, Sync_rdChan [1, 2, 3],
               Call_Write [7], Sync_wrChan [7], IO WriteRoutine,
               Sync_errChan WriteRoutine ReadCall (Some (PortError ''write failed'')),
               Sync_errChan ReadRoutine WriteCall None] demo_transport = Some s \<and>
     read_log s = [([1, 2, 3], Some (PortError ''write failed''))] \<and>
     write_log s = [None] \<and> written (dev s) = [[7]]"
  by (simp add: demo_defs)

text \<open>
  Claim C8, amended. There is one channel for data in each direction and one channel
  \<^verbatim>\<open>errChan\<close> for both: the error a goroutine offers, be it \<^verbatim>\<open>readRoutine\<close> or
  \<^verbatim>\<open>writeRoutine\<close>, passes to whichever of \<^verbatim>\<open>Read\<close> and \<^verbatim>\<open>Write\<close> waits for one, and
  that call returns it. A frame passes over \<^verbatim>\<open>rdChan\<close> from \<^verbatim>\<open>readRoutine\<close> to \<^verbatim>\<open>Read\<close>
  only, and over \<^verbatim>\<open>wrChan\<close> from \<^verbatim>\<open>Write\<close> to \<^verbatim>\<open>writeRoutine\<close> only, each leaving the
  other direction as it is.
\<close>

theorem channels_of_a_connection:
  "(\<forall>b err. rw s = RW_SendErr err \<and> rc s = RC_WaitErr b \<longrightarrow>
      step stop (Sync_errChan ReadRoutine ReadCall err) s =
        Some (s\<lparr>rw := RW_Read, rc := RC_Idle, read_log := read_log s @ [(b, err)]\<rparr>))
   \<and> (\<forall>b err. ww s = WW_SendErr err \<and> rc s = RC_WaitErr b \<longrightarrow>
      step stop (Sync_errChan WriteRoutine ReadCall err) s =
        Some (s\<lparr>ww := WW_Recv, rc := RC_Idle, read_log := read_log s @ [(b, err)]\<rparr>))
   \<and> (\<forall>err. rw s = RW_SendErr err \<and> wc s = WC_WaitErr \<longrightarrow>
      step stop (Sync_errChan ReadRoutine WriteCall err) s =
        Some (s\<lparr>rw := RW_Read, wc := WC_Idle, write_log := write_log s @ [err]\<rparr>))
   \<and> (\<forall>err. ww s = WW_SendErr err \<and> wc s = WC_WaitErr \<longrightarrow>
      step stop (Sync_errChan WriteRoutine WriteCall err) s =
        Some (s\<lparr>ww := WW_Recv, wc := WC_Idle, write_log := write_log s @ [err]\<rparr>))
   \<and> (\<forall>f s'. step stop (Sync_rdChan f) s = Some s' \<longrightarrow>
        (\<exists>err. rw s = RW_SendFrame f err \<and> rc s = RC_Select \<and>
           s' = s\<lparr>rw := RW_SendErr err, rc := RC_WaitErr f\<rparr>))
   \<and> (\<forall>b s'. step stop (Sync_wrChan b) s = Some s' \<longrightarrow>
        wc s = WC_Select b \<and> ww s = WW_Recv \<and> s' = s\<lparr>wc := WC_WaitErr, ww := WW_Write b\<rparr>)"
proof -
  have rd: "\<exists>err. rw s = RW_SendFrame f err \<and> rc s = RC_Select \<and>
           s' = s\<lparr>rw := RW_SendErr err, rc := RC_WaitErr f\<rparr>"
    if "step stop (Sync_rdChan f) s = Some s'" for f s'
    using that by (cases "rw s"; cases "rc s") (auto split: if_splits)
  have wr: "wc s = WC_Select b \<and> ww s = WW_Recv \<and> s' = s\<lparr>wc := WC_WaitErr, ww := WW_Write b\<rparr>"
    if "step stop (Sync_wrChan b) s = Some s'" for b s'
    using that by (cases "ww s"; cases "wc s") (auto split: if_splits)
  from rd wr show ?thesis by simp
qed

theorem channels_of_a_connection_witness:
  "\<exists>s. run 10 [Call_Start, Call_Read, IO ReadRoutine, Sync_rdChan [1, 2, 3],
               Call_Write [7], Sync_wrChan [7], IO WriteRoutine] demo_transport = Some s \<and>
     rw s = RW_SendErr None \<and> ww s = WW_SendErr (Some (PortError ''write failed'')) \<and>
     rc s = RC_WaitErr [1, 2, 3] \<and> wc s = WC_WaitErr \<and>
     map_option read_log (step 10 (Sync_errChan WriteRoutine ReadCall
         (Some (PortError ''write failed''))) s) =
       Some [([1, 2, 3], Some (PortError ''write failed''))] \<and>
     map_option read_log (step 10 (Sync_errChan ReadRoutine ReadCall None) s) =
       Some [([1, 2, 3], None)]"
  using channels_of_a_connection
    [of "the (run 10 [Call_Start, Call_Read, IO ReadRoutine, Sync_rdChan [1, 2, 3],
               Call_Write [7], Sync_wrChan [7], IO WriteRoutine] demo_transport)" 10]
  by (simp add: demo_defs)

subsection \<open>\<^verbatim>\<open>Close\<close>\<close>

lemma port_read_close:
  "port_read k p = Some (d, err, p') \<Longrightarrow> closes p' = closes p \<and> close_result p' = close_result p"
  by (auto simp: port_read_def split: list.splits if_splits)

lemma read_loop_close:
  "read_loop stop b j err p = Some (b', err', p') \<Longrightarrow>
     closes p' = closes p \<and> close_result p' = close_result p"
proof (induction stop b j err p rule: read_loop.induct)
  case (1 stop b j err p)
  show ?case
  proof (cases "err = None \<and> j > 0 \<and> b ! (length b - 1) \<noteq> stop")
    case True
    with "1.prems"(1) obtain d e p1 where
      pr: "port_read (32 - length b) p = Some (d, e, p1)" and
      rl: "read_loop stop (b @ d) (length d) e p1 = Some (b', err', p')"
      by (subst (asm) read_loop.simps) (auto split: option.splits)
    from "1.IH" True pr rl have "closes p' = closes p1 \<and> close_result p' = close_result p1"
      by blast
    with port_read_close [OF pr] show ?thesis by simp
  next
    case False
    with "1.prems" show ?thesis by (subst (asm) read_loop.simps) auto
  qed
qed

lemma read_frame_close:
  assumes "read_frame stop p = Some (f, err, p')"
  shows "closes p' = closes p \<and> close_result p' = close_result p"
proof -
  from assms obtain d e p1 b where
    pr: "port_read 32 p = Some (d, e, p1)" and
    rl: "read_loop stop d (length d) e p1 = Some (b, err, p')"
    by (auto simp: read_frame_def split: option.splits)
  from port_read_close [OF pr] read_loop_close [OF rl] show ?thesis by simp
qed

lemma port_write_close:
  "port_write b p = Some (err, p') \<Longrightarrow> closes p' = closes p \<and> close_result p' = close_result p"
  by (auto simp: port_write_def split: list.splits)

lemma close_log_ok_snoc:
  "close_log_ok r log \<Longrightarrow> close_log_ok r (log @ [Some ErrClosedPort])"
  by (cases log) (simp_all add: close_log_ok_def)

lemma close_log_ok_replicate:
  "close_log_ok r log \<longleftrightarrow> (\<exists>k. log = r # replicate k (Some ErrClosedPort))"
proof (cases log)
  case Nil
  then show ?thesis by (simp add: close_log_ok_def)
next
  case (Cons x xs)
  have "list_all (\<lambda>y. y = Some ErrClosedPort) xs \<longleftrightarrow> (\<exists>k. xs = replicate k (Some ErrClosedPort))"
    by (metis (mono_tags, lifting) list_all_iff replicate_eqI in_set_replicate)
  with Cons show ?thesis by (auto simp: close_log_ok_def)
qed

lemma close_inv_new: "close_inv (close_result p) (closes p) (new_transport sc p)"
  by (simp add: close_inv_def new_transport_def running_def)

lemma close_inv_step:
  assumes "step stop e s = Some s'" and "close_inv r n s"
  shows "close_inv r n s'"
  using assms(1)
proof (cases rule: step_cases)
  case (Port_read f err p')
  with assms(2) read_frame_close [of stop "dev s" f err p'] show ?thesis
    by (auto simp: close_inv_def running_def split: cc_pc.splits if_splits)
next
  case (Port_write b err p')
  with assms(2) port_write_close [of b "dev s" err p'] show ?thesis
    by (auto simp: close_inv_def running_def split: cc_pc.splits if_splits)
next
  case Close_closed
  with assms(2) show ?thesis
    by (auto simp: close_inv_def running_def close_log_ok_snoc)
next
  case (Close_wait err)
  with assms(2) show ?thesis
    by (auto simp: close_inv_def running_def close_log_ok_def)
qed (use assms(2) in \<open>auto simp: close_inv_def running_def split: cc_pc.splits if_splits\<close>)


lemma close_inv_run:
  assumes "run stop es (new_transport sc p) = Some s"
  shows "close_inv (close_result p) (closes p) s"
proof (rule run_invariant [where I = "close_inv (close_result p) (closes p)",
      OF _ close_inv_new assms])
  fix e and t t' :: "'a transport"
  assume "close_inv (close_result p) (closes p) t" and "step stop e t = Some t'"
  then show "close_inv (close_result p) (closes p) t'" by (simp add: close_inv_step)
qed

text \<open>
  Claim C4. In every state a new connection can reach: the calls of \<^verbatim>\<open>Close\<close> that have
  returned so far returned the result of the physical close first and \<^verbatim>\<open>ErrClosedPort\<close>
  ever after; the port has been closed at most once, and once if a call has returned.
  A call made while the signal has not fired fires it, closes the port and then waits; in
  that wait it can return only when neither goroutine runs any more, and it returns the
  result of the physical close. A call made once the signal has fired returns
  \<^verbatim>\<open>ErrClosedPort\<close> at its first statement and changes nothing else.
\<close>

theorem Close_once:
  fixes sc :: "'p SerialConnection"
  assumes "run stop es (new_transport sc p) = Some s"
  shows "(close_log s = [] \<or> (\<exists>k. close_log s = close_result p # replicate k (Some ErrClosedPort)))
       \<and> (closes (dev s) = closes p \<or> closes (dev s) = Suc (closes p))
       \<and> (close_log s \<noteq> [] \<longrightarrow> Closed s \<and> closes (dev s) = Suc (closes p))
       \<and> (\<not> Closed s \<and> cc s = CC_Idle \<longrightarrow>
            (\<exists>t. run stop [Call_Close, Run_Close, Run_Close, Run_Close] s = Some t \<and>
                 Closed t \<and> closes (dev t) = Suc (closes p) \<and> close_log t = [] \<and>
                 cc t = CC_Wait (close_result p)))
       \<and> (\<forall>err. cc s = CC_Wait err \<longrightarrow>
            step stop Run_Close s =
              (if (rw s = RW_NotStarted \<or> rw s = RW_Exited) \<and> (ww s = WW_NotStarted \<or> ww s = WW_Exited)
               then Some (s\<lparr>cc := CC_Idle, close_log := [close_result p]\<rparr>)
               else None))
       \<and> (Closed s \<and> cc s = CC_Idle \<longrightarrow>
            run stop [Call_Close, Run_Close] s =
              Some (s\<lparr>close_log := close_log s @ [Some ErrClosedPort]\<rparr>))"
proof -
  from assms have inv: "close_inv (close_result p) (closes p) s" by (rule close_inv_run)
  have a: "close_log s = [] \<or> (\<exists>k. close_log s = close_result p # replicate k (Some ErrClosedPort))"
    using inv by (auto simp: close_inv_def close_log_ok_replicate split: cc_pc.splits if_splits)
  have b: "closes (dev s) = closes p \<or> closes (dev s) = Suc (closes p)"
    using inv by (auto simp: close_inv_def split: cc_pc.splits if_splits)
  have c: "close_log s \<noteq> [] \<longrightarrow> Closed s \<and> closes (dev s) = Suc (closes p)"
    using inv by (auto simp: close_inv_def Closed_def split: cc_pc.splits if_splits)
  have d: "\<not> Closed s \<and> cc s = CC_Idle \<longrightarrow>
            (\<exists>t. run stop [Call_Close, Run_Close, Run_Close, Run_Close] s = Some t \<and>
                 Closed t \<and> closes (dev t) = Suc (closes p) \<and> close_log t = [] \<and>
                 cc t = CC_Wait (close_result p))"
    using inv by (auto simp: close_inv_def Closed_def Close_def port_close_def)
  have e: "\<forall>err. cc s = CC_Wait err \<longrightarrow>
            step stop Run_Close s =
              (if (rw s = RW_NotStarted \<or> rw s = RW_Exited) \<and> (ww s = WW_NotStarted \<or> ww s = WW_Exited)
               then Some (s\<lparr>cc := CC_Idle, close_log := [close_result p]\<rparr>)
               else None)"
    using inv by (auto simp: close_inv_def Close_def running_def)
  have f: "Closed s \<and> cc s = CC_Idle \<longrightarrow>
            run stop [Call_Close, Run_Close] s =
              Some (s\<lparr>close_log := close_log s @ [Some ErrClosedPort]\<rparr>)"
    by (auto simp: Close_def Closed_def)
  from a b c d e f show ?thesis by (intro conjI)
qed

theorem Close_once_witness:
  "\<exists>s. run 10 [Call_Start, Call_Close, Run_Close, Run_Close, Run_Close, IO ReadRoutine,
               Closed_routine ReadRoutine, Closed_routine WriteRoutine, Run_Close,
               Call_Close, Run_Close] demo_transport = Some s \<and>
     close_log s = [None, Some ErrClosedPort] \<and> closes (dev s) = 1 \<and> Closed s \<and>
     rw s = RW_Exited \<and> ww s = WW_Exited"
proof -
  have r: "run 10 [Call_Start, Call_Close, Run_Close, Run_Close, Run_Close, IO ReadRoutine,
               Closed_routine ReadRoutine, Closed_routine WriteRoutine, Run_Close,
               Call_Close, Run_Close] demo_transport =
      Some (demo_transport\<lparr>closeChan := True, rw := RW_Exited, ww := WW_Exited,
              dev := demo_port\<lparr>rd_script := [], closes := 1\<rparr>,
              close_log := [None, Some ErrClosedPort]\<rparr>)"
    by (simp add: demo_defs)
  from Close_once [OF r [unfolded demo_transport_def]] r show ?thesis
    by (simp add: demo_defs)
qed

subsection \<open>The return of \<^verbatim>\<open>Close\<close>\<close>



lemma Start_new:
  "Start (new_transport (probed p cfg v) d) = Some (probing p d cfg v)"
  by (simp add: Start_def new_transport_def probing_def)

lemma probing_run:
  "run stop [Call_Start] (new_transport (probed p cfg v) d) = Some (probing p d cfg v)"
  by (simp add: Start_new)











subsection \<open>\<^verbatim>\<open>FindSerial\<close>\<close>


lemma FindSerial_loop_exhausted:
  assumes "\<forall>v\<in>set ports. candidate_fails Open' probe cfg v"
    and "FindSerial_loop stop Open' probe cfg ports err w = Some r"
  shows "fst r =
           (None, Some (case (if ports = [] then err else last_recorded_error Open' cfg ports) of
                          None \<Rightarrow> ErrNoSerialPortFound | Some e \<Rightarrow> e))"
  using assms
proof (induction ports arbitrary: err w)
  case Nil
  then show ?case by (cases err) auto
next
  case (Cons v vs)
  obtain closed opened where w: "w = (closed, opened)" by (cases w)
  show ?case
  proof (cases "Open' v cfg")
    case (Inl e)
    with Cons.prems w have
      "FindSerial_loop stop Open' probe cfg vs (Some e) (closed, opened @ [v]) = Some r"
      by simp
    with Cons.IH Cons.prems(1) have
      "fst r = (None, Some (case (if vs = [] then Some e else last_recorded_error Open' cfg vs) of
                          None \<Rightarrow> ErrNoSerialPortFound | Some e \<Rightarrow> e))"
      by simp
    with Inl show ?thesis
      by (cases "vs = []") (simp_all add: last_recorded_error_def)
  next
    case (Inr x)
    obtain p d where x: "x = (p, d)" by (cases x)
    from Cons.prems(1) Inr x obtain t e' s1 where
      pr: "probe (probing p d cfg v) = ((t, Some e'), s1)"
      by (cases "probe (probing p d cfg v)") (auto simp: candidate_fails_def)
    with Cons.prems(2) w Inr x obtain s2 where
      "FindSerial_loop stop Open' probe cfg vs None (closed @ [s2], opened @ [v]) = Some r"
      by (auto simp: Start_new [unfolded probed_def] Let_def split: option.splits)
    with Cons.IH Cons.prems(1) have
      "fst r = (None, Some (case (if vs = [] then None else last_recorded_error Open' cfg vs) of
                          None \<Rightarrow> ErrNoSerialPortFound | Some e \<Rightarrow> e))"
      by simp
    with Inr show ?thesis
      by (cases "vs = []") (simp_all add: last_recorded_error_def)
  qed
qed

lemma FindSerial_loop_returns:
  assumes "\<forall>v\<in>set ports. close_returns stop Open' probe cfg v"
  shows "FindSerial_loop stop Open' probe cfg ports err w \<noteq> None"
  using assms
proof (induction ports arbitrary: err w)
  case Nil
  show ?case by simp
next
  case (Cons v vs)
  obtain closed opened where w: "w = (closed, opened)" by (cases w)
  show ?case
  proof (cases "Open' v cfg")
    case (Inl e)
    with Cons w show ?thesis by simp
  next
    case (Inr x)
    obtain p d where x: "x = (p, d)" by (cases x)
    obtain t eo s1 where pr: "probe (probing p d cfg v) = ((t, eo), s1)"
      by (cases "probe (probing p d cfg v)") auto
    show ?thesis
    proof (cases eo)
      case None
      with pr Inr x w show ?thesis
        by (simp add: Start_new [unfolded probed_def] Let_def)
    next
      case (Some e')
      from Cons.prems Inr x pr obtain s2 where "Close_call stop s1 = Some s2"
        by (auto simp: close_returns_def)
      with Some pr Inr x w Cons show ?thesis
        by (simp add: Start_new [unfolded probed_def] Let_def)
    qed
  qed
qed

lemma FindSerial_loop_closes:
  assumes "\<forall>v\<in>set ports. candidate_fails Open' probe cfg v"
    and "FindSerial_loop stop Open' probe cfg ports err w = Some r"
  shows "\<forall>v\<in>set ports. close_returns stop Open' probe cfg v"
  using assms
proof (induction ports arbitrary: err w)
  case Nil
  show ?case by simp
next
  case (Cons v vs)
  obtain closed opened where w: "w = (closed, opened)" by (cases w)
  show ?case
  proof (cases "Open' v cfg")
    case (Inl e)
    with Cons.prems w have
      "FindSerial_loop stop Open' probe cfg vs (Some e) (closed, opened @ [v]) = Some r"
      by simp
    with Cons.IH Cons.prems(1) have "\<forall>v\<in>set vs. close_returns stop Open' probe cfg v"
      by simp
    with Inl show ?thesis by (simp add: close_returns_def)
  next
    case (Inr x)
    obtain p d where x: "x = (p, d)" by (cases x)
    from Cons.prems(1) Inr x obtain t e' s1 where
      pr: "probe (probing p d cfg v) = ((t, Some e'), s1)"
      by (cases "probe (probing p d cfg v)") (auto simp: candidate_fails_def)
    with Cons.prems(2) w Inr x obtain s2 where c: "Close_call stop s1 = Some s2" and
      "FindSerial_loop stop Open' probe cfg vs None (closed @ [s2], opened @ [v]) = Some r"
      by (auto simp: Start_new [unfolded probed_def] Let_def split: option.splits)
    with Cons.IH Cons.prems(1) have "\<forall>v\<in>set vs. close_returns stop Open' probe cfg v"
      by simp
    with Inr x pr c show ?thesis by (simp add: close_returns_def)
  qed
qed

lemma errors_encountered_last:
  assumes "\<forall>v\<in>set ports. candidate_fails Open' probe cfg v"
    and "last_recorded_error Open' cfg ports = Some e"
  shows "errors_encountered Open' probe cfg ports \<noteq> [] \<and>
         last (errors_encountered Open' probe cfg ports) = e"
  using assms
proof (induction ports)
  case Nil
  then show ?case by (simp add: last_recorded_error_def)
next
  case (Cons v vs)
  show ?case
  proof (cases "vs = []")
    case True
    with Cons.prems show ?thesis
      by (auto simp: last_recorded_error_def split: sum.splits)
  next
    case False
    with Cons.prems have "last_recorded_error Open' cfg vs = Some e"
      by (simp add: last_recorded_error_def)
    with Cons have IH: "errors_encountered Open' probe cfg vs \<noteq> [] \<and>
         last (errors_encountered Open' probe cfg vs) = e" by simp
    from Cons.prems have "candidate_fails Open' probe cfg v" by simp
    with IH show ?thesis
      by (auto simp: candidate_fails_def split: sum.splits option.splits)
  qed
qed

lemma demo_probe_COM2:
  "demo_probe (probing 2 closing_port DefaultSerialConfig ''COM2'') =
     ((0, Some (ReadTimeoutError 50000000)),
      (probing 2 closing_port DefaultSerialConfig ''COM2'')
        \<lparr>read_log := [([], Some (ReadTimeoutError 50000000))]\<rparr>)"
  by (simp add: FindSerial_demo_defs demo_defs)


lemma demo_Close_COM2:
  "Close_call 10 ((probing 2 closing_port DefaultSerialConfig ''COM2'')
        \<lparr>read_log := [([], Some (ReadTimeoutError 50000000))]\<rparr>) =
     Some ((probing 2 closing_port DefaultSerialConfig ''COM2'')
        \<lparr>read_log := [([], Some (ReadTimeoutError 50000000))], closeChan := True, wg := 0,
          rw := RW_Exited, ww := WW_Exited,
          dev := closing_port\<lparr>rd_script := [], closes := 1\<rparr>, close_log := [None]\<rparr>)"
  by (simp add: FindSerial_demo_defs demo_defs)

text \<open>
  Claim C5. When every candidate fails to open or fails its probe, \<^verbatim>\<open>FindSerial\<close>
  comes to the end of the list exactly when the \<^verbatim>\<open>Close\<close> of every connection it has
  made returns, and it then returns no connection and: \<^verbatim>\<open>ErrNoSerialPortFound\<close> if the
  recorded error is \<^verbatim>\<open>nil\<close> (the list is empty, or the last candidate opened),
  otherwise the recorded error, which is then the last of the errors met during the
  search. For an empty list the result is \<^verbatim>\<open>ErrNoSerialPortFound\<close>.
\<close>

theorem FindSerial_no_device:
  assumes "\<forall>v\<in>set ports. candidate_fails Open' probe (chosen_config config') v"
  shows "map_option fst (FindSerial stop (Inr ports) Open' probe config') =
           (if \<forall>v\<in>set ports. close_returns stop Open' probe (chosen_config config') v
            then Some (None, Some (case last_recorded_error Open' (chosen_config config') ports of
                                     None \<Rightarrow> ErrNoSerialPortFound | Some e \<Rightarrow> e))
            else None)
       \<and> (\<forall>e. last_recorded_error Open' (chosen_config config') ports = Some e \<longrightarrow>
               errors_encountered Open' probe (chosen_config config') ports \<noteq> [] \<and>
               last (errors_encountered Open' probe (chosen_config config') ports) = e)
       \<and> (ports = [] \<longrightarrow>
            FindSerial stop (Inr ports) Open' probe config' =
              Some ((None, Some ErrNoSerialPortFound), ([], [])))"
proof -
  let ?res = "(None, Some (case last_recorded_error Open' (chosen_config config') ports of
                                   None \<Rightarrow> ErrNoSerialPortFound | Some e \<Rightarrow> e))"
  have F: "FindSerial stop (Inr ports) Open' probe config' =
      FindSerial_loop stop Open' probe (chosen_config config') ports None ([], [])"
    by (simp add: FindSerial_def chosen_config_def)
  have a: "fst r = ?res" if "FindSerial stop (Inr ports) Open' probe config' = Some r" for r
    using FindSerial_loop_exhausted [OF assms, of stop None "([], [])" r] that F
    by (cases "ports = []") (simp_all add: last_recorded_error_def)
  have b: "map_option fst (FindSerial stop (Inr ports) Open' probe config') =
           (if \<forall>v\<in>set ports. close_returns stop Open' probe (chosen_config config') v
            then Some ?res else None)"
  proof (cases "\<forall>v\<in>set ports. close_returns stop Open' probe (chosen_config config') v")
    case True
    from FindSerial_loop_returns [OF True, of None "([], [])"] F
    obtain r where r: "FindSerial stop (Inr ports) Open' probe config' = Some r" by auto
    with a [OF r] True show ?thesis by simp
  next
    case False
    have "FindSerial stop (Inr ports) Open' probe config' = None"
    proof (rule ccontr)
      assume "FindSerial stop (Inr ports) Open' probe config' \<noteq> None"
      then obtain r where
        "FindSerial_loop stop Open' probe (chosen_config config') ports None ([], []) = Some r"
        using F by auto
      from FindSerial_loop_closes [OF assms this] False show False by simp
    qed
    with False show ?thesis by simp
  qed
  have c: "\<forall>e. last_recorded_error Open' (chosen_config config') ports = Some e \<longrightarrow>
               errors_encountered Open' probe (chosen_config config') ports \<noteq> [] \<and>
               last (errors_encountered Open' probe (chosen_config config') ports) = e"
    using errors_encountered_last [OF assms] by blast
  have d: "ports = [] \<longrightarrow>
            FindSerial stop (Inr ports) Open' probe config' =
              Some ((None, Some ErrNoSerialPortFound), ([], []))"
    by (simp add: FindSerial_def)
  from b c d show ?thesis by blast
qed

theorem FindSerial_no_device_witness:
  "map_option fst (FindSerial 10 (Inr [''COM2'', ''COM1'']) (demo_Open closing_port) demo_probe None) =
     Some (None, Some (PortError ''busy'')) \<and>
   map_option fst (FindSerial 10 (Inr [''COM1'', ''COM2'']) (demo_Open closing_port) demo_probe None) =
     Some (None, Some ErrNoSerialPortFound) \<and>
   errors_encountered (demo_Open closing_port) demo_probe (chosen_config None) [''COM1'', ''COM2''] =
     [PortError ''busy'', ReadTimeoutError 50000000]"
proof -
  have h1: "\<forall>v\<in>set [''COM2'', ''COM1''].
      candidate_fails (demo_Open closing_port) demo_probe (chosen_config None) v"
    by (simp add: candidate_fails_def demo_Open_def chosen_config_def demo_probe_COM2)
  have h2: "\<forall>v\<in>set [''COM1'', ''COM2''].
      candidate_fails (demo_Open closing_port) demo_probe (chosen_config None) v"
    by (simp add: candidate_fails_def demo_Open_def chosen_config_def demo_probe_COM2)
  have c1: "\<forall>v\<in>set [''COM2'', ''COM1''].
      close_returns 10 (demo_Open closing_port) demo_probe (chosen_config None) v"
    by (simp add: close_returns_def demo_Open_def chosen_config_def demo_probe_COM2 demo_Close_COM2)
  have c2: "\<forall>v\<in>set [''COM1'', ''COM2''].
      close_returns 10 (demo_Open closing_port) demo_probe (chosen_config None) v"
    by (simp add: close_returns_def demo_Open_def chosen_config_def demo_probe_COM2 demo_Close_COM2)
  show ?thesis
    using FindSerial_no_device [OF h1, of 10] FindSerial_no_device [OF h2, of 10] c1 c2
    by (simp add: last_recorded_error_def demo_Open_def chosen_config_def demo_probe_COM2)
qed







subsection \<open>The flag \<^verbatim>\<open>lockPort\<close>\<close>

lemma Read_locked [simp]: "Read (sc\<lparr>locked := l\<rparr>) pc c = Read sc pc c"
  by (cases "(sc, pc, c)" rule: Read.cases) simp_all

lemma Write_locked [simp]: "Write (sc\<lparr>locked := l\<rparr>) pc c = Write sc pc c"
  by (cases "(sc, pc, c)" rule: Write.cases) simp_all

lemma routine_case_locked:
  "routine_case r c (set_locked l s) = map_option (set_locked l) (routine_case r c s)"
  by (cases r) (simp_all add: set_locked_def split: option.splits)

lemma caller_case_locked:
  "caller_case k c (set_locked l s) = map_option (set_locked l) (caller_case k c s)"
  by (cases k) (simp_all add: set_locked_def split: option.splits)

lemma Closed_locked [simp]: "Closed (set_locked l s) = Closed s"
  by (simp add: Closed_def set_locked_def)

lemma step_locked:
  "step stop e (set_locked l s) = map_option (set_locked l) (step stop e s)"
proof (cases e)
  case Call_Start
  then show ?thesis by (simp add: Start_def set_locked_def)
next
  case Run_Close
  then show ?thesis
    by (simp add: Close_def Closed_def set_locked_def split: cc_pc.splits prod.splits)
next
  case (IO r)
  then show ?thesis
    by (cases r) (simp_all add: set_locked_def split: option.splits)
next
  case (Sync_rdChan f)
  then show ?thesis
    by (simp add: routine_case_locked caller_case_locked del: routine_case.simps caller_case.simps
        split: option.splits)
next
  case (Sync_wrChan b)
  then show ?thesis
    by (simp add: routine_case_locked caller_case_locked del: routine_case.simps caller_case.simps
        split: option.splits)
next
  case (Sync_errChan r k err)
  then show ?thesis
    by (simp add: routine_case_locked caller_case_locked del: routine_case.simps caller_case.simps
        split: option.splits)
next
  case (Closed_routine r)
  then show ?thesis
    by (simp add: routine_case_locked del: routine_case.simps)
next
  case (Closed_caller k)
  then show ?thesis
    by (simp add: caller_case_locked del: caller_case.simps)
next
  case (Timer k)
  then show ?thesis
    by (simp add: caller_case_locked del: caller_case.simps)
qed (simp_all add: set_locked_def)

lemma run_locked:
  "run stop es (set_locked l s) = map_option (set_locked l) (run stop es s)"
proof (induction es arbitrary: s)
  case Nil
  show ?case by simp
next
  case (Cons e es)
  show ?case
    by (cases "step stop e s") (simp_all add: step_locked Cons.IH)
qed

lemma observe_locked: "observe (set_locked l s) = observe s"
  by (simp add: observe_def set_locked_def Closed_def Path_def)

text \<open>
  Claim C10. Two connections made by \<^verbatim>\<open>NewSerial\<close> from the same arguments but for
  \<^verbatim>\<open>lockPort\<close> go through the same steps in the same order, and a client sees the same:
  the same results of \<^verbatim>\<open>Read\<close>, \<^verbatim>\<open>Write\<close> and \<^verbatim>\<open>Close\<close>, the same \<^verbatim>\<open>Closed\<close> and
  the same \<^verbatim>\<open>Path\<close>; and where one cannot take a step, neither can the other.
\<close>

theorem lockPort_not_observable:
  "map_option observe (run stop es (new_transport (NewSerial p cfg name True) d)) =
   map_option observe (run stop es (new_transport (NewSerial p cfg name False) d))"
proof -
  have "new_transport (NewSerial p cfg name True) d =
        set_locked True (new_transport (NewSerial p cfg name False) d)"
    by (simp add: new_transport_def NewSerial_def set_locked_def)
  then show ?thesis
    by (simp add: run_locked option.map_comp comp_def observe_locked)
qed

end
